theory Spec2Isabelle
  imports Complex_Main
begin

section \<open>Numbers and the library functions the flight maths calls\<close>

text \<open>
  The development has two models of a JavaScript number.  In the first a number is a real:
  the arithmetic is exact and every value is finite, so rounding, overflow, NaN and the two
  infinities are outside that model, and so is the size of an array.  It carries the
  statements about which sample gets which heading, and the spherical trigonometry.  In the
  second, further down, every operation rounds, a value can be infinite or NaN, and an array
  can be full; it carries the statements about how many samples a run builds and how a run
  ends.

  The functions of \<open>Math\<close> and of \<open>Cesium.Math\<close> are library code; in the first model they are
  given by their mathematical definitions.
\<close>

text \<open>\<open>Cesium.Math.toRadians\<close> multiplies by \<open>pi / 180\<close>, \<open>Cesium.Math.toDegrees\<close> by
  \<open>180 / pi\<close>.\<close>

definition toRadians :: "real \<Rightarrow> real" where
  "toRadians degrees = degrees * (pi / 180)"

definition toDegrees :: "real \<Rightarrow> real" where
  "toDegrees radians = radians * (180 / pi)"

text \<open>\<open>Math.atan2(y, x)\<close>: the angle of the point \<open>(x, y)\<close>, in \<open>(-pi, pi]\<close>, and \<open>0\<close> at
  the origin.\<close>

definition atan2 :: "real \<Rightarrow> real \<Rightarrow> real" where
  "atan2 y x =
     (if 0 < x then arctan (y / x)
      else if x < 0 then (if 0 \<le> y then arctan (y / x) + pi else arctan (y / x) - pi)
      else if 0 < y then pi / 2
      else if y < 0 then - (pi / 2)
      else 0)"

text \<open>\<open>Math.ceil\<close> returns a number again.\<close>

definition ceil :: "real \<Rightarrow> real" where
  "ceil x = of_int \<lceil>x\<rceil>"

text \<open>The remainder operator \<open>a % b\<close> truncates the quotient towards zero, so the result has
  the sign of the dividend.\<close>

definition jsTrunc :: "real \<Rightarrow> int" where
  "jsTrunc x = (if 0 \<le> x then \<lfloor>x\<rfloor> else \<lceil>x\<rceil>)"

definition jsRem :: "real \<Rightarrow> real \<Rightarrow> real" where
  "jsRem a b = a - b * of_int (jsTrunc (a / b))"

text \<open>Reading an array at an index: \<open>undefined\<close> (here \<open>None\<close>) outside the array, also at
  a negative index.\<close>

definition idx :: "'a list \<Rightarrow> int \<Rightarrow> 'a option" where
  "idx xs k = (if 0 \<le> k \<and> k < int (length xs) then Some (xs ! nat k) else None)"

section \<open>Data model (types.ts)\<close>

datatype WaypointType = NORMAL | ORBIT

record Waypoint =
  id :: string
  lat :: real
  lon :: real
  alt :: real
  type :: WaypointType
  orbitRadius :: real
  orbitPoints :: real
  orbitLaps :: real
  orbitSpeed :: real

text \<open>The object \<open>{lat, lon}\<close> that the projection returns.\<close>

record LatLon =
  lat :: real
  lon :: real

record SimulatedPoint =
  lat :: real
  lon :: real
  alt :: real
  heading :: real
  isOrbit :: bool

definition DEFAULT_SPEED :: real where
  "DEFAULT_SPEED = 10"

text \<open>The ways a run can stop without a path: reading a property of \<open>undefined\<close> throws a
  \<open>TypeError\<close>; \<open>push\<close> on an array that can hold no more throws a \<open>RangeError\<close> (or the
  engine runs out of memory); \<open>ZeroDivisor\<close> marks a division by zero, which in JavaScript
  throws nothing and yields an infinity or NaN.\<close>

datatype error = TypeError | RangeError | ZeroDivisor

section \<open>Geodesic primitives (services/flightMath.ts)\<close>

definition getPointAtDistanceAndBearing :: "real \<Rightarrow> real \<Rightarrow> real \<Rightarrow> real \<Rightarrow> LatLon" where
  "getPointAtDistanceAndBearing lat0 lon0 distMeters bearingDegrees =
     (let R = 6378137;
          d = distMeters;
          brng = toRadians bearingDegrees;
          lat1 = toRadians lat0;
          lon1 = toRadians lon0;
          lat2 = arcsin (sin lat1 * cos (d / R) + cos lat1 * sin (d / R) * cos brng);
          lon2 = lon1 + atan2 (sin brng * sin (d / R) * cos lat1)
                              (cos (d / R) - sin lat1 * sin lat2)
      in \<lparr>LatLon.lat = toDegrees lat2, LatLon.lon = toDegrees lon2\<rparr>)"

definition calculateBearing :: "real \<Rightarrow> real \<Rightarrow> real \<Rightarrow> real \<Rightarrow> real" where
  "calculateBearing startLat startLon destLat destLon =
     (let startLatRad = toRadians startLat;
          startLonRad = toRadians startLon;
          destLatRad = toRadians destLat;
          destLonRad = toRadians destLon;
          y = sin (destLonRad - startLonRad) * cos destLatRad;
          x = cos startLatRad * sin destLatRad -
              sin startLatRad * cos destLatRad * cos (destLonRad - startLonRad);
          brng = atan2 y x
      in jsRem (toDegrees brng + 360) 360)"

section \<open>The path generator (services/flightMath.ts)\<close>

text \<open>The body of the inner loop: the sample pushed at step \<open>j\<close> of an orbit.\<close>

definition orbitSample :: "Waypoint \<Rightarrow> real \<Rightarrow> nat \<Rightarrow> SimulatedPoint" where
  "orbitSample current angleStep j =
     (let angle = real j * angleStep;
          circlePoint = getPointAtDistanceAndBearing (Waypoint.lat current) (Waypoint.lon current)
                          (orbitRadius current) angle;
          headingToCenter = calculateBearing (LatLon.lat circlePoint) (LatLon.lon circlePoint)
                              (Waypoint.lat current) (Waypoint.lon current)
      in \<lparr>SimulatedPoint.lat = LatLon.lat circlePoint,
          SimulatedPoint.lon = LatLon.lon circlePoint,
          SimulatedPoint.alt = Waypoint.alt current,
          heading = headingToCenter,
          isOrbit = True\<rparr>)"

text \<open>The inner loop \<open>for (let j = 0; j <= totalSteps; j++)\<close>, pushing onto \<open>path\<close>.\<close>

function orbitLoop ::
  "Waypoint \<Rightarrow> real \<Rightarrow> real \<Rightarrow> nat \<Rightarrow> SimulatedPoint list \<Rightarrow> SimulatedPoint list" where
  "orbitLoop current angleStep totalSteps j path =
     (if real j \<le> totalSteps
      then orbitLoop current angleStep totalSteps (j + 1) (path @ [orbitSample current angleStep j])
      else path)"
  by pat_completeness auto
termination
proof (relation "measure (\<lambda>(current, angleStep, totalSteps, j, path). nat (\<lfloor>totalSteps\<rfloor> + 1) - j)")
  show "wf (measure (\<lambda>(current, angleStep, totalSteps, j, path). nat (\<lfloor>totalSteps\<rfloor> + 1) - j))"
    by simp
next
  fix current :: Waypoint and angleStep totalSteps :: real and j :: nat
    and path :: "SimulatedPoint list"
  assume "real j \<le> totalSteps"
  then have "int j \<le> \<lfloor>totalSteps\<rfloor>"
    by (simp add: le_floor_iff)
  then show "((current, angleStep, totalSteps, j + 1, path @ [orbitSample current angleStep j]),
              (current, angleStep, totalSteps, j, path))
             \<in> measure (\<lambda>(current, angleStep, totalSteps, j, path). nat (\<lfloor>totalSteps\<rfloor> + 1) - j)"
    by simp
qed

declare orbitLoop.simps [simp del]

text \<open>The lap-time divisor \<open>Math.max(0.1, speed)\<close>.\<close>

definition lapDivisor :: "real \<Rightarrow> real" where
  "lapDivisor speed = max (1 / 10) speed"

text \<open>The branch for an orbit waypoint: the sampling density, then the inner loop.\<close>

definition orbitBranch :: "Waypoint \<Rightarrow> real \<Rightarrow> SimulatedPoint list \<Rightarrow> SimulatedPoint list" where
  "orbitBranch current speed path =
     (let circumference = 2 * pi * orbitRadius current;
          timePerLap = circumference / lapDivisor speed;
          SAMPLE_INTERVAL_SECONDS = 1;
          pointsPerLap = ceil (timePerLap / SAMPLE_INTERVAL_SECONDS);
          pointsPerLap = max pointsPerLap 24;
          laps = (if orbitLaps current = 0 then 1 else orbitLaps current);
          angleStep = 360 / pointsPerLap;
          totalSteps = pointsPerLap * laps
      in orbitLoop current angleStep totalSteps 0 path)"

text \<open>The branch for a normal waypoint: one sample, heading towards the next waypoint, or
  the previous sample's heading, or 0.\<close>

definition normalBranch ::
  "Waypoint \<Rightarrow> Waypoint option \<Rightarrow> nat \<Rightarrow> SimulatedPoint list \<Rightarrow> SimulatedPoint list" where
  "normalBranch current next i path =
     (let heading0 =
            (case next of
               Some n \<Rightarrow> calculateBearing (Waypoint.lat current) (Waypoint.lon current)
                           (Waypoint.lat n) (Waypoint.lon n)
             | None \<Rightarrow>
                 if i > 0
                 then (case idx path (int (length path) - 1) of
                         Some prev \<Rightarrow> heading prev
                       | None \<Rightarrow> 0)
                 else 0)
      in path @ [\<lparr>SimulatedPoint.lat = Waypoint.lat current,
                  SimulatedPoint.lon = Waypoint.lon current,
                  SimulatedPoint.alt = Waypoint.alt current,
                  heading = heading0,
                  isOrbit = False\<rparr>])"

text \<open>One iteration of the outer loop.  \<open>current.type\<close> on an \<open>undefined\<close> element would
  throw.\<close>

definition loopBody ::
  "Waypoint list \<Rightarrow> real \<Rightarrow> nat \<Rightarrow> SimulatedPoint list \<Rightarrow> error + SimulatedPoint list" where
  "loopBody waypoints speed i path =
     (case idx waypoints (int i) of
        None \<Rightarrow> Inl TypeError
      | Some current \<Rightarrow>
          (let next = idx waypoints (int i + 1)
           in if type current = ORBIT
              then Inr (orbitBranch current speed path)
              else Inr (normalBranch current next i path)))"

text \<open>The outer loop \<open>for (let i = 0; i < waypoints.length; i++)\<close>.\<close>

function genLoop ::
  "Waypoint list \<Rightarrow> real \<Rightarrow> nat \<Rightarrow> SimulatedPoint list \<Rightarrow> error + SimulatedPoint list" where
  "genLoop waypoints speed i path =
     (if i < length waypoints
      then (case loopBody waypoints speed i path of
              Inl e \<Rightarrow> Inl e
            | Inr path' \<Rightarrow> genLoop waypoints speed (i + 1) path')
      else Inr path)"
  by pat_completeness auto
termination
  by (relation "measure (\<lambda>(waypoints, speed, i, path). length waypoints - i)") auto

declare genLoop.simps [simp del]

definition generateSimulationPath :: "Waypoint list \<Rightarrow> real \<Rightarrow> error + SimulatedPoint list" where
  "generateSimulationPath waypoints speed =
     (if length waypoints < 1 then Inr [] else genLoop waypoints speed 0 [])"

text \<open>The call with the speed left out takes the default.\<close>

definition generateSimulationPathDefault :: "Waypoint list \<Rightarrow> error + SimulatedPoint list" where
  "generateSimulationPathDefault waypoints = generateSimulationPath waypoints DEFAULT_SPEED"

text \<open>How often the body of the inner loop runs: the number of \<open>j = 0, 1, 2, ...\<close> with
  \<open>j <= totalSteps\<close>.\<close>

definition stepCount :: "real \<Rightarrow> nat" where
  "stepCount totalSteps = (if totalSteps < 0 then 0 else nat \<lfloor>totalSteps\<rfloor> + 1)"

section \<open>The path during the outer loop\<close>

text \<open>The value of \<open>path\<close> when the outer loop reaches index \<open>i\<close>.\<close>

primrec pathBefore :: "Waypoint list \<Rightarrow> real \<Rightarrow> nat \<Rightarrow> SimulatedPoint list" where
  "pathBefore waypoints speed 0 = []"
| "pathBefore waypoints speed (Suc i) =
     (case loopBody waypoints speed i (pathBefore waypoints speed i) of
        Inl e \<Rightarrow> pathBefore waypoints speed i
      | Inr path' \<Rightarrow> path')"

text \<open>The samples that iteration \<open>i\<close> of the outer loop pushes: the samples emitted for
  waypoint \<open>i\<close>.\<close>

definition emitted :: "Waypoint list \<Rightarrow> real \<Rightarrow> nat \<Rightarrow> SimulatedPoint list" where
  "emitted waypoints speed i =
     drop (length (pathBefore waypoints speed i)) (pathBefore waypoints speed (Suc i))"

section \<open>Example inputs\<close>

text \<open>The orbit of radius 30 around the origin, one lap.\<close>

definition orbitAtOrigin :: Waypoint where
  "orbitAtOrigin = \<lparr>Waypoint.id = ''wp-orbit'', Waypoint.lat = 0, Waypoint.lon = 0, Waypoint.alt = 10,
     type = ORBIT, orbitRadius = 30, orbitPoints = 36, orbitLaps = 1, orbitSpeed = 5\<rparr>"

text \<open>Two normal waypoints on the equator, one degree of longitude apart.\<close>

definition normalAtOrigin :: Waypoint where
  "normalAtOrigin = \<lparr>Waypoint.id = ''wp-a'', Waypoint.lat = 0, Waypoint.lon = 0, Waypoint.alt = 10,
     type = NORMAL, orbitRadius = 30, orbitPoints = 36, orbitLaps = 1, orbitSpeed = 5\<rparr>"

definition normalEast :: Waypoint where
  "normalEast = \<lparr>Waypoint.id = ''wp-b'', Waypoint.lat = 0, Waypoint.lon = 1, Waypoint.alt = 10,
     type = NORMAL, orbitRadius = 30, orbitPoints = 36, orbitLaps = 1, orbitSpeed = 5\<rparr>"

text \<open>An orbit with a negative number of laps, and one with none.\<close>

definition backwardsOrbit :: Waypoint where
  "backwardsOrbit = \<lparr>Waypoint.id = ''wp-d'', Waypoint.lat = 0, Waypoint.lon = 0, Waypoint.alt = 10,
     type = ORBIT, orbitRadius = 30, orbitPoints = 36, orbitLaps = - 1, orbitSpeed = 5\<rparr>"

definition zeroLapsOrbit :: Waypoint where
  "zeroLapsOrbit = \<lparr>Waypoint.id = ''wp-e'', Waypoint.lat = 0, Waypoint.lon = 0, Waypoint.alt = 10,
     type = ORBIT, orbitRadius = 30, orbitPoints = 36, orbitLaps = 0, orbitSpeed = 5\<rparr>"

section \<open>Double arithmetic and bounded arrays\<close>

text \<open>
  The second model of a JavaScript number: a finite number, one of the two infinities, or
  NaN.  The sign of a zero is not represented.
\<close>

datatype num = Finite real | PosInfinity | NegInfinity | NaN

text \<open>
  An engine fixes what this development does not compute.  \<open>fl\<close> rounds the exact result of
  an arithmetic operation to the double that the operation returns, an infinity on overflow;
  \<open>fl pi\<close> is \<open>Math.PI\<close> and \<open>fl (1 / 10)\<close> is the literal \<open>0.1\<close>.  \<open>sinD\<close>, \<open>cosD\<close>, \<open>asinD\<close> and
  \<open>atan2D\<close> are \<open>Math.sin\<close>, \<open>Math.cos\<close>, \<open>Math.asin\<close> and \<open>Math.atan2\<close> on doubles.  \<open>capacity\<close>
  is the number of elements an array can hold: \<open>push\<close> on a full array throws.
\<close>

record engine =
  fl :: "real \<Rightarrow> num"
  sinD :: "num \<Rightarrow> num"
  cosD :: "num \<Rightarrow> num"
  asinD :: "num \<Rightarrow> num"
  atan2D :: "num \<Rightarrow> num \<Rightarrow> num"
  capacity :: nat

text \<open>The operators \<open>+\<close>, \<open>-\<close>, \<open>*\<close> and \<open>/\<close>: on finite operands the exact result is rounded, on
  the others the result is the one of IEEE 754.\<close>

definition positive :: "num \<Rightarrow> bool" where
  "positive a = (case a of Finite x \<Rightarrow> 0 < x | PosInfinity \<Rightarrow> True | _ \<Rightarrow> False)"

definition negD :: "num \<Rightarrow> num" where
  "negD a = (case a of Finite x \<Rightarrow> Finite (- x) | PosInfinity \<Rightarrow> NegInfinity
             | NegInfinity \<Rightarrow> PosInfinity | NaN \<Rightarrow> NaN)"

definition addD :: "engine \<Rightarrow> num \<Rightarrow> num \<Rightarrow> num" where
  "addD E a b =
     (case (a, b) of
        (Finite x, Finite y) \<Rightarrow> fl E (x + y)
      | (NaN, _) \<Rightarrow> NaN
      | (_, NaN) \<Rightarrow> NaN
      | (PosInfinity, NegInfinity) \<Rightarrow> NaN
      | (NegInfinity, PosInfinity) \<Rightarrow> NaN
      | (PosInfinity, _) \<Rightarrow> PosInfinity
      | (NegInfinity, _) \<Rightarrow> NegInfinity
      | (_, PosInfinity) \<Rightarrow> PosInfinity
      | (_, NegInfinity) \<Rightarrow> NegInfinity)"

definition subD :: "engine \<Rightarrow> num \<Rightarrow> num \<Rightarrow> num" where
  "subD E a b = addD E a (negD b)"

definition mulD :: "engine \<Rightarrow> num \<Rightarrow> num \<Rightarrow> num" where
  "mulD E a b =
     (case (a, b) of
        (Finite x, Finite y) \<Rightarrow> fl E (x * y)
      | _ \<Rightarrow> if a = NaN \<or> b = NaN \<or> a = Finite 0 \<or> b = Finite 0 then NaN
             else if positive a = positive b then PosInfinity else NegInfinity)"

definition quotD :: "engine \<Rightarrow> num \<Rightarrow> num \<Rightarrow> num" where
  "quotD E a b =
     (case (a, b) of
        (Finite x, Finite y) \<Rightarrow>
          if y \<noteq> 0 then fl E (x / y)
          else if x = 0 then NaN else if 0 < x then PosInfinity else NegInfinity
      | (NaN, _) \<Rightarrow> NaN
      | (_, NaN) \<Rightarrow> NaN
      | (Finite x, _) \<Rightarrow> Finite 0
      | (_, Finite y) \<Rightarrow> if positive a = (0 \<le> y) then PosInfinity else NegInfinity
      | _ \<Rightarrow> NaN)"

text \<open>
  A division of the generator.  In JavaScript a division by zero throws nothing and the run
  goes on with an infinity or NaN; here it ends the run with \<open>ZeroDivisor\<close>, so that whether
  a run divides by zero can be read off its outcome.
\<close>

definition divide :: "engine \<Rightarrow> num \<Rightarrow> num \<Rightarrow> error + num" where
  "divide E a b = (if b = Finite 0 then Inl ZeroDivisor else Inr (quotD E a b))"

text \<open>The operator \<open>%\<close>, whose result is exact, the comparison \<open><=\<close>, \<open>Math.max\<close>, \<open>Math.ceil\<close>,
  and the values that \<open>||\<close> takes for false.\<close>

definition remD :: "num \<Rightarrow> num \<Rightarrow> num" where
  "remD a b =
     (case (a, b) of
        (Finite x, Finite y) \<Rightarrow> if y = 0 then NaN else Finite (jsRem x y)
      | (Finite x, PosInfinity) \<Rightarrow> Finite x
      | (Finite x, NegInfinity) \<Rightarrow> Finite x
      | _ \<Rightarrow> NaN)"

fun leD :: "num \<Rightarrow> num \<Rightarrow> bool" where
  "leD NaN b = False"
| "leD a NaN = False"
| "leD NegInfinity b = True"
| "leD a PosInfinity = True"
| "leD PosInfinity b = False"
| "leD a NegInfinity = False"
| "leD (Finite x) (Finite y) = (x \<le> y)"

definition maxD :: "num \<Rightarrow> num \<Rightarrow> num" where
  "maxD a b = (if a = NaN \<or> b = NaN then NaN else if leD a b then b else a)"

definition ceilD :: "num \<Rightarrow> num" where
  "ceilD a = (case a of Finite x \<Rightarrow> Finite (of_int \<lceil>x\<rceil>) | _ \<Rightarrow> a)"

definition falsy :: "num \<Rightarrow> bool" where
  "falsy a = (a = Finite 0 \<or> a = NaN)"

text \<open>\<open>path.push\<close>: the array with one more element, or a \<open>RangeError\<close> when it is full.\<close>

definition push :: "engine \<Rightarrow> 'a list \<Rightarrow> 'a \<Rightarrow> error + 'a list" where
  "push E xs x = (if length xs < capacity E then Inr (xs @ [x]) else Inl RangeError)"

section \<open>The data model over doubles\<close>

record WaypointD =
  idD :: string
  latD :: num
  lonD :: num
  altD :: num
  typeD :: WaypointType
  orbitRadiusD :: num
  orbitPointsD :: num
  orbitLapsD :: num
  orbitSpeedD :: num

record LatLonD =
  latD :: num
  lonD :: num

record SimulatedPointD =
  latD :: num
  lonD :: num
  altD :: num
  headingD :: num
  isOrbitD :: bool

section \<open>The flight maths on an engine\<close>

text \<open>The functions of \<open>services/flightMath.ts\<close> once more, every operation now the one of the
  engine.\<close>

definition toRadiansD :: "engine \<Rightarrow> num \<Rightarrow> num" where
  "toRadiansD E degrees = mulD E degrees (quotD E (fl E pi) (Finite 180))"

definition toDegreesD :: "engine \<Rightarrow> num \<Rightarrow> num" where
  "toDegreesD E radians = mulD E radians (quotD E (Finite 180) (fl E pi))"

definition getPointAtDistanceAndBearingD :: "engine \<Rightarrow> num \<Rightarrow> num \<Rightarrow> num \<Rightarrow> num \<Rightarrow> LatLonD" where
  "getPointAtDistanceAndBearingD E lat0 lon0 distMeters bearingDegrees =
     (let R = Finite 6378137;
          d = distMeters;
          brng = toRadiansD E bearingDegrees;
          lat1 = toRadiansD E lat0;
          lon1 = toRadiansD E lon0;
          lat2 = asinD E (addD E (mulD E (sinD E lat1) (cosD E (quotD E d R)))
                                 (mulD E (mulD E (cosD E lat1) (sinD E (quotD E d R))) (cosD E brng)));
          lon2 = addD E lon1
                   (atan2D E (mulD E (mulD E (sinD E brng) (sinD E (quotD E d R))) (cosD E lat1))
                             (subD E (cosD E (quotD E d R)) (mulD E (sinD E lat1) (sinD E lat2))))
      in \<lparr>LatLonD.latD = toDegreesD E lat2, LatLonD.lonD = toDegreesD E lon2\<rparr>)"

definition calculateBearingD :: "engine \<Rightarrow> num \<Rightarrow> num \<Rightarrow> num \<Rightarrow> num \<Rightarrow> num" where
  "calculateBearingD E startLat startLon destLat destLon =
     (let startLatRad = toRadiansD E startLat;
          startLonRad = toRadiansD E startLon;
          destLatRad = toRadiansD E destLat;
          destLonRad = toRadiansD E destLon;
          y = mulD E (sinD E (subD E destLonRad startLonRad)) (cosD E destLatRad);
          x = subD E (mulD E (cosD E startLatRad) (sinD E destLatRad))
                     (mulD E (mulD E (sinD E startLatRad) (cosD E destLatRad))
                             (cosD E (subD E destLonRad startLonRad)));
          brng = atan2D E y x
      in remD (addD E (toDegreesD E brng) (Finite 360)) (Finite 360))"

definition orbitSampleD :: "engine \<Rightarrow> WaypointD \<Rightarrow> num \<Rightarrow> nat \<Rightarrow> SimulatedPointD" where
  "orbitSampleD E current angleStep j =
     (let angle = mulD E (Finite (real j)) angleStep;
          circlePoint = getPointAtDistanceAndBearingD E (WaypointD.latD current) (WaypointD.lonD current)
                          (orbitRadiusD current) angle;
          headingToCenter = calculateBearingD E (LatLonD.latD circlePoint) (LatLonD.lonD circlePoint)
                              (WaypointD.latD current) (WaypointD.lonD current)
      in \<lparr>SimulatedPointD.latD = LatLonD.latD circlePoint,
          SimulatedPointD.lonD = LatLonD.lonD circlePoint,
          SimulatedPointD.altD = WaypointD.altD current,
          headingD = headingToCenter,
          isOrbitD = True\<rparr>)"

text \<open>
  The inner loop, \<open>for (let j = 0; j <= totalSteps; j++)\<close>.  Every iteration pushes one
  sample, so the loop ends when \<open>j\<close> passes \<open>totalSteps\<close> or when the array is full; with
  \<open>totalSteps\<close> infinite only the second can happen.  The counter is a double in the code;
  it stays below the capacity of an array, where \<open>j++\<close> is exact, and is a natural number
  here.
\<close>

function orbitLoopD ::
  "engine \<Rightarrow> WaypointD \<Rightarrow> num \<Rightarrow> num \<Rightarrow> nat \<Rightarrow> SimulatedPointD list \<Rightarrow> error + SimulatedPointD list" where
  "orbitLoopD E current angleStep totalSteps j path =
     (if leD (Finite (real j)) totalSteps
      then (case push E path (orbitSampleD E current angleStep j) of
              Inl e \<Rightarrow> Inl e
            | Inr path' \<Rightarrow> orbitLoopD E current angleStep totalSteps (j + 1) path')
      else Inr path)"
  by pat_completeness auto
termination
proof (relation "measure (\<lambda>(E, current, angleStep, totalSteps, j, path). capacity E - length path)")
  show "wf (measure (\<lambda>(E, current, angleStep, totalSteps, j, path). capacity E - length path))"
    by simp
next
  fix E :: engine and current :: WaypointD and angleStep totalSteps :: num and j :: nat
    and path path' :: "SimulatedPointD list"
  assume "push E path (orbitSampleD E current angleStep j) = Inr path'"
  then have "length path < capacity E \<and> path' = path @ [orbitSampleD E current angleStep j]"
    by (simp add: push_def split: if_splits)
  then show "((E, current, angleStep, totalSteps, j + 1, path'),
              (E, current, angleStep, totalSteps, j, path))
             \<in> measure (\<lambda>(E, current, angleStep, totalSteps, j, path). capacity E - length path)"
    by auto
qed

declare orbitLoopD.simps [simp del]

text \<open>The orbit branch of the outer loop's body, with its three divisions.\<close>

definition orbitBranchD ::
  "engine \<Rightarrow> WaypointD \<Rightarrow> num \<Rightarrow> SimulatedPointD list \<Rightarrow> error + SimulatedPointD list" where
  "orbitBranchD E current speed path =
     (let circumference = mulD E (mulD E (Finite 2) (fl E pi)) (orbitRadiusD current)
      in case divide E circumference (maxD (fl E (1 / 10)) speed) of
           Inl e \<Rightarrow> Inl e
         | Inr timePerLap \<Rightarrow>
             (let SAMPLE_INTERVAL_SECONDS = Finite 1
              in case divide E timePerLap SAMPLE_INTERVAL_SECONDS of
                   Inl e \<Rightarrow> Inl e
                 | Inr samples \<Rightarrow>
                     (let pointsPerLap = ceilD samples;
                          pointsPerLap = maxD pointsPerLap (Finite 24);
                          laps = (if falsy (orbitLapsD current) then Finite 1 else orbitLapsD current)
                      in case divide E (Finite 360) pointsPerLap of
                           Inl e \<Rightarrow> Inl e
                         | Inr angleStep \<Rightarrow>
                             (let totalSteps = mulD E pointsPerLap laps
                              in orbitLoopD E current angleStep totalSteps 0 path))))"

text \<open>The branch of a normal waypoint.\<close>

definition normalBranchD ::
  "engine \<Rightarrow> WaypointD \<Rightarrow> WaypointD option \<Rightarrow> nat \<Rightarrow> SimulatedPointD list \<Rightarrow>
   error + SimulatedPointD list" where
  "normalBranchD E current next i path =
     (let heading0 =
            (case next of
               Some n \<Rightarrow> calculateBearingD E (WaypointD.latD current) (WaypointD.lonD current)
                           (WaypointD.latD n) (WaypointD.lonD n)
             | None \<Rightarrow>
                 if i > 0
                 then (case idx path (int (length path) - 1) of
                         Some prev \<Rightarrow> headingD prev
                       | None \<Rightarrow> Finite 0)
                 else Finite 0)
      in push E path \<lparr>SimulatedPointD.latD = WaypointD.latD current,
                       SimulatedPointD.lonD = WaypointD.lonD current,
                       SimulatedPointD.altD = WaypointD.altD current,
                       headingD = heading0,
                       isOrbitD = False\<rparr>)"

text \<open>The body of the outer loop, the outer loop and the generator.\<close>

definition loopBodyD ::
  "engine \<Rightarrow> WaypointD list \<Rightarrow> num \<Rightarrow> nat \<Rightarrow> SimulatedPointD list \<Rightarrow> error + SimulatedPointD list" where
  "loopBodyD E waypoints speed i path =
     (case idx waypoints (int i) of
        None \<Rightarrow> Inl TypeError
      | Some current \<Rightarrow>
          (let next = idx waypoints (int i + 1)
           in if typeD current = ORBIT
              then orbitBranchD E current speed path
              else normalBranchD E current next i path))"

function genLoopD ::
  "engine \<Rightarrow> WaypointD list \<Rightarrow> num \<Rightarrow> nat \<Rightarrow> SimulatedPointD list \<Rightarrow> error + SimulatedPointD list" where
  "genLoopD E waypoints speed i path =
     (if i < length waypoints
      then (case loopBodyD E waypoints speed i path of
              Inl e \<Rightarrow> Inl e
            | Inr path' \<Rightarrow> genLoopD E waypoints speed (i + 1) path')
      else Inr path)"
  by pat_completeness auto
termination
  by (relation "measure (\<lambda>(E, waypoints, speed, i, path). length waypoints - i)") auto

declare genLoopD.simps [simp del]

definition generateSimulationPathD ::
  "engine \<Rightarrow> WaypointD list \<Rightarrow> num \<Rightarrow> error + SimulatedPointD list" where
  "generateSimulationPathD E waypoints speed =
     (if length waypoints < 1 then Inr [] else genLoopD E waypoints speed 0 [])"

section \<open>Engines, and what a waypoint list demands of one\<close>

text \<open>
  What the results below need of an engine: the literal \<open>0.1\<close> is a positive finite number;
  the integers up to \<open>2 ^ 53\<close> in absolute value are doubles, so an operation whose exact
  result is one of them returns it; rounding is monotone; and an array holds at most
  \<open>2 ^ 32 - 1\<close> elements.  The engine of double arithmetic, defined further down, is shown to
  have these properties.
\<close>

definition wellFormed :: "engine \<Rightarrow> bool" where
  "wellFormed E =
     ((\<exists>t. 0 < t \<and> fl E (1 / 10) = Finite t) \<and>
      (\<forall>k::int. \<bar>k\<bar> \<le> 2 ^ 53 \<longrightarrow> fl E (of_int k) = Finite (of_int k)) \<and>
      (\<forall>x y. x \<le> y \<longrightarrow> leD (fl E x) (fl E y)) \<and>
      capacity E \<le> 2 ^ 32 - 1)"

text \<open>The value of \<open>pointsPerLap\<close> that the orbit branch computes for an orbit of radius \<open>r\<close> at
  speed \<open>s\<close>, and its value of \<open>laps\<close>.\<close>

definition pointsPerLapD :: "engine \<Rightarrow> num \<Rightarrow> num \<Rightarrow> num" where
  "pointsPerLapD E r s =
     maxD (Finite 24)
       (ceilD (quotD E (quotD E (mulD E (mulD E (Finite 2) (fl E pi)) r) (maxD (fl E (1 / 10)) s))
                 (Finite 1)))"

definition lapsD :: "WaypointD \<Rightarrow> num" where
  "lapsD w = (if falsy (orbitLapsD w) then Finite 1 else orbitLapsD w)"

text \<open>The number of \<open>j = 0, 1, 2, ...\<close> with \<open>j <= totalSteps\<close>; there is none when \<open>totalSteps\<close> is
  infinite.\<close>

definition stepsD :: "num \<Rightarrow> nat option" where
  "stepsD totalSteps =
     (case totalSteps of
        Finite t \<Rightarrow> Some (stepCount t)
      | PosInfinity \<Rightarrow> None
      | _ \<Rightarrow> Some 0)"

text \<open>The number of samples that a waypoint asks for, and the number that the first \<open>i\<close>
  waypoints of a list ask for together.\<close>

definition samplesD :: "engine \<Rightarrow> WaypointD \<Rightarrow> num \<Rightarrow> nat option" where
  "samplesD E w speed =
     (if typeD w = ORBIT
      then stepsD (mulD E (pointsPerLapD E (orbitRadiusD w) speed) (lapsD w))
      else Some 1)"

primrec demandD :: "engine \<Rightarrow> WaypointD list \<Rightarrow> num \<Rightarrow> nat \<Rightarrow> nat option" where
  "demandD E waypoints speed 0 = Some 0"
| "demandD E waypoints speed (Suc i) =
     (case (demandD E waypoints speed i, samplesD E (waypoints ! i) speed) of
        (Some a, Some b) \<Rightarrow> Some (a + b)
      | _ \<Rightarrow> None)"

text \<open>The state of the run when the outer loop reaches index \<open>i\<close>: the path built so far, or
  the error that has ended the run.\<close>

primrec pathBeforeD ::
  "engine \<Rightarrow> WaypointD list \<Rightarrow> num \<Rightarrow> nat \<Rightarrow> error + SimulatedPointD list" where
  "pathBeforeD E waypoints speed 0 = Inr []"
| "pathBeforeD E waypoints speed (Suc i) =
     (case pathBeforeD E waypoints speed i of
        Inl e \<Rightarrow> Inl e
      | Inr path \<Rightarrow> loopBodyD E waypoints speed i path)"

text \<open>
  The engine that does not round, with the mathematical functions of the first model and
  arrays of up to \<open>2 ^ 32 - 1\<close> elements.  It is well-formed.
\<close>

definition exactEngine :: engine where
  "exactEngine =
     \<lparr>fl = Finite,
      sinD = (\<lambda>a. case a of Finite x \<Rightarrow> Finite (sin x) | _ \<Rightarrow> NaN),
      cosD = (\<lambda>a. case a of Finite x \<Rightarrow> Finite (cos x) | _ \<Rightarrow> NaN),
      asinD = (\<lambda>a. case a of Finite x \<Rightarrow> if - 1 \<le> x \<and> x \<le> 1 then Finite (arcsin x) else NaN
                        | _ \<Rightarrow> NaN),
      atan2D = (\<lambda>a b. case (a, b) of
                  (Finite y, Finite x) \<Rightarrow> Finite (atan2 y x)
                | (NaN, _) \<Rightarrow> NaN
                | (_, NaN) \<Rightarrow> NaN
                | (Finite y, PosInfinity) \<Rightarrow> Finite 0
                | (Finite y, NegInfinity) \<Rightarrow> if 0 \<le> y then Finite pi else Finite (- pi)
                | (PosInfinity, Finite x) \<Rightarrow> Finite (pi / 2)
                | (NegInfinity, Finite x) \<Rightarrow> Finite (- (pi / 2))
                | (PosInfinity, PosInfinity) \<Rightarrow> Finite (pi / 4)
                | (PosInfinity, NegInfinity) \<Rightarrow> Finite (3 * pi / 4)
                | (NegInfinity, PosInfinity) \<Rightarrow> Finite (- (pi / 4))
                | (NegInfinity, NegInfinity) \<Rightarrow> Finite (- (3 * pi / 4))),
      capacity = 2 ^ 32 - 1\<rparr>"

text \<open>The orbit of radius 30 around the origin and a normal waypoint, as above.\<close>

definition orbitAtOriginD :: WaypointD where
  "orbitAtOriginD = \<lparr>idD = ''wp-orbit'', WaypointD.latD = Finite 0, WaypointD.lonD = Finite 0,
     WaypointD.altD = Finite 10, typeD = ORBIT, orbitRadiusD = Finite 30, orbitPointsD = Finite 36,
     orbitLapsD = Finite 1, orbitSpeedD = Finite 5\<rparr>"

definition normalEastD :: WaypointD where
  "normalEastD = \<lparr>idD = ''wp-b'', WaypointD.latD = Finite 0, WaypointD.lonD = Finite 1,
     WaypointD.altD = Finite 10, typeD = NORMAL, orbitRadiusD = Finite 30, orbitPointsD = Finite 36,
     orbitLapsD = Finite 1, orbitSpeedD = Finite 5\<rparr>"

text \<open>An orbit with a negative radius, coordinates out of range and no laps.\<close>

definition degenerateOrbitD :: WaypointD where
  "degenerateOrbitD = \<lparr>idD = ''wp-c'', WaypointD.latD = Finite 200, WaypointD.lonD = Finite (- 1000),
     WaypointD.altD = Finite (- 5), typeD = ORBIT, orbitRadiusD = Finite (- 3), orbitPointsD = Finite 0,
     orbitLapsD = Finite 0, orbitSpeedD = Finite 0\<rparr>"

text \<open>An orbit of radius ten million kilometres, and two laps of an orbit of radius one
  million kilometres.\<close>

definition hugeOrbitD :: WaypointD where
  "hugeOrbitD = \<lparr>idD = ''wp-f'', WaypointD.latD = Finite 0, WaypointD.lonD = Finite 0,
     WaypointD.altD = Finite 10, typeD = ORBIT, orbitRadiusD = Finite 10000000000, orbitPointsD = Finite 36,
     orbitLapsD = Finite 1, orbitSpeedD = Finite 5\<rparr>"

definition twoWideLapsD :: WaypointD where
  "twoWideLapsD = \<lparr>idD = ''wp-g'', WaypointD.latD = Finite 0, WaypointD.lonD = Finite 0,
     WaypointD.altD = Finite 10, typeD = ORBIT, orbitRadiusD = Finite 1000000000, orbitPointsD = Finite 36,
     orbitLapsD = Finite 2, orbitSpeedD = Finite 5\<rparr>"

section \<open>The engine of double arithmetic\<close>

text \<open>
  Rounding to the nearest double, a tie going to the even significand (IEEE 754, binary64).
  \<open>binade x\<close> is the exponent \<open>e\<close> with \<open>2 ^ e <= |x| < 2 ^ (e + 1)\<close>, or \<open>-1022\<close> where the
  subnormal numbers begin; \<open>ulp x\<close> is the distance \<open>2 ^ (e - 52)\<close> between neighbouring doubles
  there; \<open>nearest x\<close> is the multiple of \<open>ulp x\<close> nearest to \<open>x\<close>; and a result of magnitude
  \<open>2 ^ 1024\<close> or more overflows to an infinity.
\<close>

definition roundEven :: "real \<Rightarrow> int" where
  "roundEven q =
     (let f = \<lfloor>q\<rfloor>; r = q - of_int f
      in if r < 1 / 2 then f else if 1 / 2 < r then f + 1 else if even f then f else f + 1)"

definition binade :: "real \<Rightarrow> int" where
  "binade x = max \<lfloor>log 2 \<bar>x\<bar>\<rfloor> (- 1022)"

definition ulp :: "real \<Rightarrow> real" where
  "ulp x = 2 powr of_int (binade x - 52)"

definition nearest :: "real \<Rightarrow> real" where
  "nearest x = of_int (roundEven (x / ulp x)) * ulp x"

definition fl64 :: "real \<Rightarrow> num" where
  "fl64 x =
     (if x = 0 then Finite 0
      else if 2 ^ 1024 \<le> nearest x then PosInfinity
      else if nearest x \<le> - (2 ^ 1024) then NegInfinity
      else Finite (nearest x))"

text \<open>
  The engine of double arithmetic.  Its library functions return the rounded mathematical
  value; those of a JavaScript engine may differ from it in the last digit.
\<close>

definition doubleEngine :: engine where
  "doubleEngine =
     \<lparr>fl = fl64,
      sinD = (\<lambda>a. case a of Finite x \<Rightarrow> fl64 (sin x) | _ \<Rightarrow> NaN),
      cosD = (\<lambda>a. case a of Finite x \<Rightarrow> fl64 (cos x) | _ \<Rightarrow> NaN),
      asinD = (\<lambda>a. case a of Finite x \<Rightarrow> if - 1 \<le> x \<and> x \<le> 1 then fl64 (arcsin x) else NaN
                        | _ \<Rightarrow> NaN),
      atan2D = (\<lambda>a b. case (a, b) of
                  (Finite y, Finite x) \<Rightarrow> fl64 (atan2 y x)
                | (NaN, _) \<Rightarrow> NaN
                | (_, NaN) \<Rightarrow> NaN
                | (Finite y, PosInfinity) \<Rightarrow> Finite 0
                | (Finite y, NegInfinity) \<Rightarrow> if 0 \<le> y then fl64 pi else fl64 (- pi)
                | (PosInfinity, Finite x) \<Rightarrow> fl64 (pi / 2)
                | (NegInfinity, Finite x) \<Rightarrow> fl64 (- (pi / 2))
                | (PosInfinity, PosInfinity) \<Rightarrow> fl64 (pi / 4)
                | (PosInfinity, NegInfinity) \<Rightarrow> fl64 (3 * pi / 4)
                | (NegInfinity, PosInfinity) \<Rightarrow> fl64 (- (pi / 4))
                | (NegInfinity, NegInfinity) \<Rightarrow> fl64 (- (3 * pi / 4))),
      capacity = 2 ^ 32 - 1\<rparr>"

text \<open>An orbit whose radius is the double nearest to 3.978873577297384.\<close>

definition roundedOrbitD :: WaypointD where
  "roundedOrbitD = \<lparr>idD = ''wp-h'', WaypointD.latD = Finite 0, WaypointD.lonD = Finite 0,
     WaypointD.altD = Finite 10, typeD = ORBIT,
     orbitRadiusD = Finite (8959626780035405 / 2251799813685248), orbitPointsD = Finite 36,
     orbitLapsD = Finite 1, orbitSpeedD = Finite 5\<rparr>"

section \<open>Array reads and the two loops\<close>

lemma idx_in: "i < length xs \<Longrightarrow> idx xs (int i) = Some (xs ! i)"
  by (simp add: idx_def)

lemma idx_Suc: "idx xs (int i + 1) = (if Suc i < length xs then Some (xs ! Suc i) else None)"
  by (auto simp: idx_def nat_add_distrib)

lemma idx_last: "idx xs (int (length xs) - 1) = (if xs = [] then None else Some (last xs))"
  by (cases xs rule: rev_cases) (auto simp: idx_def nth_append)

lemma stepCount_le: "real j \<le> t \<longleftrightarrow> j < stepCount t"
  unfolding stepCount_def by (auto simp: le_floor_iff) linarith+

lemma orbitLoop_eq:
  "orbitLoop current angleStep totalSteps j path =
     path @ map (orbitSample current angleStep) [j ..< stepCount totalSteps]"
proof (induction current angleStep totalSteps j path rule: orbitLoop.induct)
  case (1 current angleStep totalSteps j path)
  show ?case
  proof (cases "real j \<le> totalSteps")
    case True
    then have lt: "j < stepCount totalSteps" by (simp add: stepCount_le)
    have "orbitLoop current angleStep totalSteps j path =
          orbitLoop current angleStep totalSteps (j + 1) (path @ [orbitSample current angleStep j])"
      using True by (subst orbitLoop.simps) simp
    also have "\<dots> = (path @ [orbitSample current angleStep j]) @
                 map (orbitSample current angleStep) [j + 1 ..< stepCount totalSteps]"
      using 1 True by simp
    also have "\<dots> = path @ map (orbitSample current angleStep) [j ..< stepCount totalSteps]"
      using lt by (simp add: upt_conv_Cons)
    finally show ?thesis .
  next
    case False
    then have "\<not> j < stepCount totalSteps" by (simp add: stepCount_le)
    then show ?thesis using False by (subst orbitLoop.simps) simp
  qed
qed

lemma loopBody_in:
  "i < length waypoints \<Longrightarrow>
   loopBody waypoints speed i path =
     Inr (if type (waypoints ! i) = ORBIT
          then orbitBranch (waypoints ! i) speed path
          else normalBranch (waypoints ! i) (idx waypoints (int i + 1)) i path)"
  by (simp add: loopBody_def idx_in)

lemma genLoop_from:
  "i \<le> length waypoints \<Longrightarrow>
   genLoop waypoints speed i (pathBefore waypoints speed i) =
     Inr (pathBefore waypoints speed (length waypoints))"
proof (induction "length waypoints - i" arbitrary: i)
  case 0
  then have "i = length waypoints" by simp
  then show ?case by (subst genLoop.simps) simp
next
  case (Suc n)
  then have lt: "i < length waypoints" by simp
  have "genLoop waypoints speed i (pathBefore waypoints speed i) =
        genLoop waypoints speed (i + 1) (pathBefore waypoints speed (Suc i))"
    using lt by (subst genLoop.simps) (simp add: loopBody_in)
  also have "\<dots> = Inr (pathBefore waypoints speed (length waypoints))"
    using Suc(1)[of "Suc i"] Suc(2) lt by simp
  finally show ?case .
qed

text \<open>The outer loop never reads \<open>current.type\<close> of an \<open>undefined\<close> element: it returns the
  path it has built when the index reaches the length.\<close>

lemma generateSimulationPath_eq:
  "generateSimulationPath waypoints speed = Inr (pathBefore waypoints speed (length waypoints))"
proof (cases "length waypoints < 1")
  case True
  then show ?thesis by (simp add: generateSimulationPath_def)
next
  case False
  then show ?thesis
    using genLoop_from[of 0 waypoints speed] by (simp add: generateSimulationPath_def)
qed

lemma orbitBranch_eq:
  "orbitBranch current speed path =
     path @ map (orbitSample current (360 / max (ceil (2 * pi * orbitRadius current / lapDivisor speed / 1)) 24))
       [0 ..< stepCount (max (ceil (2 * pi * orbitRadius current / lapDivisor speed / 1)) 24 *
                          (if orbitLaps current = 0 then 1 else orbitLaps current))]"
  by (simp add: orbitBranch_def Let_def orbitLoop_eq)

lemma idx_Nil: "idx [] k = None"
  by (simp add: idx_def)

lemma normalBranch_eq:
  "normalBranch current next i path =
     path @ [\<lparr>SimulatedPoint.lat = Waypoint.lat current,
              SimulatedPoint.lon = Waypoint.lon current,
              SimulatedPoint.alt = Waypoint.alt current,
              heading =
                (case next of
                   Some n \<Rightarrow> calculateBearing (Waypoint.lat current) (Waypoint.lon current)
                               (Waypoint.lat n) (Waypoint.lon n)
                 | None \<Rightarrow> if i > 0 \<and> path \<noteq> [] then heading (last path) else 0),
              isOrbit = False\<rparr>]"
  by (cases "path = []") (simp_all add: normalBranch_def Let_def idx_last idx_Nil split: option.splits)

lemma pathBefore_orbit:
  "i < length waypoints \<Longrightarrow> type (waypoints ! i) = ORBIT \<Longrightarrow>
   pathBefore waypoints speed (Suc i) =
     pathBefore waypoints speed i @
     map (orbitSample (waypoints ! i) (360 / max (ceil (2 * pi * orbitRadius (waypoints ! i) / lapDivisor speed / 1)) 24))
       [0 ..< stepCount (max (ceil (2 * pi * orbitRadius (waypoints ! i) / lapDivisor speed / 1)) 24 *
                          (if orbitLaps (waypoints ! i) = 0 then 1 else orbitLaps (waypoints ! i)))]"
  by (simp add: loopBody_in orbitBranch_eq)

lemma pathBefore_normal:
  "i < length waypoints \<Longrightarrow> type (waypoints ! i) = NORMAL \<Longrightarrow>
   pathBefore waypoints speed (Suc i) =
     pathBefore waypoints speed i @
     [\<lparr>SimulatedPoint.lat = Waypoint.lat (waypoints ! i),
       SimulatedPoint.lon = Waypoint.lon (waypoints ! i),
       SimulatedPoint.alt = Waypoint.alt (waypoints ! i),
       heading =
         (if Suc i < length waypoints
          then calculateBearing (Waypoint.lat (waypoints ! i)) (Waypoint.lon (waypoints ! i))
                 (Waypoint.lat (waypoints ! Suc i)) (Waypoint.lon (waypoints ! Suc i))
          else if i > 0 \<and> pathBefore waypoints speed i \<noteq> []
          then heading (last (pathBefore waypoints speed i))
          else 0),
       isOrbit = False\<rparr>]"
  by (simp add: loopBody_in normalBranch_eq idx_Suc)

lemma emitted_orbit:
  "i < length waypoints \<Longrightarrow> type (waypoints ! i) = ORBIT \<Longrightarrow>
   emitted waypoints speed i =
     map (orbitSample (waypoints ! i) (360 / max (ceil (2 * pi * orbitRadius (waypoints ! i) / lapDivisor speed / 1)) 24))
       [0 ..< stepCount (max (ceil (2 * pi * orbitRadius (waypoints ! i) / lapDivisor speed / 1)) 24 *
                          (if orbitLaps (waypoints ! i) = 0 then 1 else orbitLaps (waypoints ! i)))]"
  unfolding emitted_def by (simp add: pathBefore_orbit del: pathBefore.simps)

lemma emitted_normal:
  "i < length waypoints \<Longrightarrow> type (waypoints ! i) = NORMAL \<Longrightarrow>
   emitted waypoints speed i =
     [\<lparr>SimulatedPoint.lat = Waypoint.lat (waypoints ! i),
       SimulatedPoint.lon = Waypoint.lon (waypoints ! i),
       SimulatedPoint.alt = Waypoint.alt (waypoints ! i),
       heading =
         (if Suc i < length waypoints
          then calculateBearing (Waypoint.lat (waypoints ! i)) (Waypoint.lon (waypoints ! i))
                 (Waypoint.lat (waypoints ! Suc i)) (Waypoint.lon (waypoints ! Suc i))
          else if i > 0 \<and> pathBefore waypoints speed i \<noteq> []
          then heading (last (pathBefore waypoints speed i))
          else 0),
       isOrbit = False\<rparr>]"
  unfolding emitted_def by (simp add: pathBefore_normal del: pathBefore.simps)

lemma pathBefore_Suc:
  "i < length waypoints \<Longrightarrow>
   pathBefore waypoints speed (Suc i) = pathBefore waypoints speed i @ emitted waypoints speed i"
  by (cases "type (waypoints ! i)")
     (simp_all add: pathBefore_orbit pathBefore_normal emitted_orbit emitted_normal del: pathBefore.simps)

text \<open>The generated path is the samples emitted for waypoint 0, then those for waypoint 1,
  and so on.\<close>

lemma generateSimulationPath_concat:
  "generateSimulationPath waypoints speed =
     Inr (concat (map (emitted waypoints speed) [0 ..< length waypoints]))"
proof -
  have "k \<le> length waypoints \<Longrightarrow>
        pathBefore waypoints speed k = concat (map (emitted waypoints speed) [0 ..< k])" for k
  proof (induction k)
    case 0
    show ?case by simp
  next
    case (Suc k)
    then show ?case by (simp add: pathBefore_Suc del: pathBefore.simps)
  qed
  then show ?thesis by (simp add: generateSimulationPath_eq)
qed

lemma stepCount_of_int: "0 \<le> k \<Longrightarrow> int (stepCount (of_int k)) = k + 1"
  by (simp add: stepCount_def)

lemma max_ceil_24: "max (ceil x) 24 = of_int (max 24 \<lceil>x\<rceil>)"
  unfolding ceil_def by (simp add: max_def) linarith

section \<open>Orbit waypoints\<close>

lemma orbitSample_fields:
  "isOrbit (orbitSample current angleStep j) \<and>
   SimulatedPoint.alt (orbitSample current angleStep j) = Waypoint.alt current \<and>
   heading (orbitSample current angleStep j) =
     calculateBearing (SimulatedPoint.lat (orbitSample current angleStep j))
       (SimulatedPoint.lon (orbitSample current angleStep j))
       (Waypoint.lat current) (Waypoint.lon current)"
  by (simp add: orbitSample_def Let_def)

text \<open>C2: every sample emitted for an orbit waypoint has the orbit flag set, and its heading
  is the bearing computed from the sample back to the centre of the orbit.\<close>

theorem orbit_heading_to_center:
  assumes "i < length waypoints"
    and "type (waypoints ! i) = ORBIT"
  shows "\<forall>p \<in> set (emitted waypoints speed i).
           isOrbit p \<and>
           heading p = calculateBearing (SimulatedPoint.lat p) (SimulatedPoint.lon p)
                         (Waypoint.lat (waypoints ! i)) (Waypoint.lon (waypoints ! i))"
  using assms by (auto simp: emitted_orbit orbitSample_fields)

lemma emitted_orbitAtOrigin_nonempty: "emitted [orbitAtOrigin] 10 0 \<noteq> []"
proof
  assume "emitted [orbitAtOrigin] 10 0 = []"
  then have "length (emitted [orbitAtOrigin] 10 0) = 0" by simp
  moreover have "0 < stepCount (max (ceil (2 * pi * 30 / lapDivisor 10 / 1)) 24 * 1)"
    by (simp add: stepCount_def ceil_def max_def)
  ultimately show False
    by (simp add: emitted_orbit orbitAtOrigin_def)
qed

theorem orbit_heading_to_center_witness:
  "isOrbit (hd (emitted [orbitAtOrigin] 10 0)) \<and>
   heading (hd (emitted [orbitAtOrigin] 10 0)) =
     calculateBearing (SimulatedPoint.lat (hd (emitted [orbitAtOrigin] 10 0)))
       (SimulatedPoint.lon (hd (emitted [orbitAtOrigin] 10 0))) 0 0"
proof -
  have "hd (emitted [orbitAtOrigin] 10 0) \<in> set (emitted [orbitAtOrigin] 10 0)"
    using emitted_orbitAtOrigin_nonempty by simp
  moreover have "Waypoint.lat ([orbitAtOrigin] ! 0) = 0" "Waypoint.lon ([orbitAtOrigin] ! 0) = 0"
    by (simp_all add: orbitAtOrigin_def)
  ultimately show ?thesis
    using orbit_heading_to_center[of 0 "[orbitAtOrigin]" 10]
    by (simp add: orbitAtOrigin_def)
qed

section \<open>Normal waypoints\<close>

lemma all_normal_nth:
  "\<forall>w \<in> set waypoints. type w = NORMAL \<Longrightarrow> i < length waypoints \<Longrightarrow>
   type (waypoints ! i) = NORMAL"
  by simp

lemma pathBefore_all_normal:
  assumes "\<forall>w \<in> set waypoints. type w = NORMAL"
  shows "Suc k < length waypoints \<Longrightarrow>
         pathBefore waypoints speed (Suc k) =
           map (\<lambda>i. \<lparr>SimulatedPoint.lat = Waypoint.lat (waypoints ! i),
                      SimulatedPoint.lon = Waypoint.lon (waypoints ! i),
                      SimulatedPoint.alt = Waypoint.alt (waypoints ! i),
                      heading = calculateBearing (Waypoint.lat (waypoints ! i)) (Waypoint.lon (waypoints ! i))
                                  (Waypoint.lat (waypoints ! Suc i)) (Waypoint.lon (waypoints ! Suc i)),
                      isOrbit = False\<rparr>) [0 ..< Suc k]"
proof (induction k)
  case 0
  then have lt: "0 < length waypoints" by linarith
  then have ty: "type (waypoints ! 0) = NORMAL" by (rule all_normal_nth[OF assms])
  show ?case using 0 by (simp add: pathBefore_normal[OF lt ty] del: pathBefore.simps(2))
next
  case (Suc k)
  then have lt: "Suc k < length waypoints" by linarith
  then have ty: "type (waypoints ! Suc k) = NORMAL" by (rule all_normal_nth[OF assms])
  show ?case using Suc by (simp add: pathBefore_normal[OF lt ty] del: pathBefore.simps)
qed

text \<open>C3: for a list of \<open>n \<ge> 2\<close> waypoints that are all normal, the generator emits exactly
  \<open>n\<close> points; the heading at each index \<open>i < n - 1\<close> is the bearing from waypoint \<open>i\<close> to
  waypoint \<open>i + 1\<close>, and the heading of the last point is the heading of the sample emitted
  before it.\<close>

theorem normal_headings:
  assumes "\<forall>w \<in> set waypoints. type w = NORMAL"
    and "2 \<le> length waypoints"
  shows "\<exists>out. generateSimulationPath waypoints speed = Inr out \<and>
           length out = length waypoints \<and>
           (\<forall>i. i < length waypoints - 1 \<longrightarrow>
              heading (out ! i) =
                calculateBearing (Waypoint.lat (waypoints ! i)) (Waypoint.lon (waypoints ! i))
                  (Waypoint.lat (waypoints ! (i + 1))) (Waypoint.lon (waypoints ! (i + 1)))) \<and>
           heading (out ! (length waypoints - 1)) = heading (out ! (length waypoints - 2))"
proof -
  obtain m where n: "length waypoints = Suc (Suc m)"
    using assms(2) by (metis Suc_le_D numeral_2_eq_2 Suc_le_mono)
  let ?pt = "\<lambda>i. \<lparr>SimulatedPoint.lat = Waypoint.lat (waypoints ! i),
                      SimulatedPoint.lon = Waypoint.lon (waypoints ! i),
                      SimulatedPoint.alt = Waypoint.alt (waypoints ! i),
                      heading = calculateBearing (Waypoint.lat (waypoints ! i)) (Waypoint.lon (waypoints ! i))
                                  (Waypoint.lat (waypoints ! Suc i)) (Waypoint.lon (waypoints ! Suc i)),
                      isOrbit = False\<rparr>"
  let ?pre = "pathBefore waypoints speed (Suc m)"
  let ?out = "pathBefore waypoints speed (Suc (Suc m))"
  have pre: "?pre = map ?pt [0 ..< Suc m]"
    using pathBefore_all_normal[OF assms(1), of m speed] n by simp
  have len_pre: "length ?pre = Suc m" by (simp only: pre length_map length_upt)
  have pre_ne: "?pre \<noteq> []" using len_pre by auto
  have lastT: "type (waypoints ! Suc m) = NORMAL"
    using all_normal_nth[OF assms(1), of "Suc m"] n by simp
  have out: "?out = ?pre @ [\<lparr>SimulatedPoint.lat = Waypoint.lat (waypoints ! Suc m),
                SimulatedPoint.lon = Waypoint.lon (waypoints ! Suc m),
                SimulatedPoint.alt = Waypoint.alt (waypoints ! Suc m),
                heading = heading (last ?pre), isOrbit = False\<rparr>]"
    using pathBefore_normal[of "Suc m" waypoints speed] n lastT pre_ne by simp
  have len_out: "length ?out = length waypoints"
    by (simp only: out length_append len_pre n) simp
  have heads: "heading (?out ! i) = heading (?pt i)" if "i < Suc m" for i
  proof -
    have "?out ! i = ?pre ! i" using that len_pre by (simp only: out nth_append) simp
    also have "\<dots> = ?pt i" using that by (simp only: pre) (simp del: upt_Suc)
    finally show ?thesis by simp
  qed
  have last_out: "heading (?out ! Suc m) = heading (last ?pre)"
    using len_pre by (simp only: out nth_append) simp
  have "last ?pre = ?pre ! m" using len_pre pre_ne by (simp add: last_conv_nth del: pathBefore.simps)
  also have "\<dots> = ?out ! m" using len_pre by (simp only: out nth_append) simp
  finally have carry: "heading (?out ! Suc m) = heading (?out ! m)" using last_out by simp
  have "generateSimulationPath waypoints speed = Inr ?out"
    by (simp only: generateSimulationPath_eq n)
  moreover have "\<forall>i. i < length waypoints - 1 \<longrightarrow>
              heading (?out ! i) =
                calculateBearing (Waypoint.lat (waypoints ! i)) (Waypoint.lon (waypoints ! i))
                  (Waypoint.lat (waypoints ! (i + 1))) (Waypoint.lon (waypoints ! (i + 1)))"
    using heads n by simp
  moreover have "heading (?out ! (length waypoints - 1)) = heading (?out ! (length waypoints - 2))"
    using carry n by simp
  ultimately show ?thesis using len_out by blast
qed

lemma jsRem_450: "jsRem 450 360 = 90"
proof -
  have "\<lfloor>450 / 360 :: real\<rfloor> = 1" by (simp add: floor_eq_iff)
  then show ?thesis by (simp add: jsRem_def jsTrunc_def)
qed

lemma bearing_due_east: "calculateBearing 0 0 0 1 = 90"
proof -
  have "0 < sin (pi / 180)" by (rule sin_gt_zero) (simp_all add: pi_gt_zero)
  then have a: "atan2 (sin (pi / 180)) 0 = pi / 2" by (simp add: atan2_def)
  have d: "toDegrees (pi / 2) = 90" by (simp add: toDegrees_def)
  show ?thesis
    by (simp add: calculateBearing_def Let_def toRadians_def a d jsRem_450)
qed

theorem normal_headings_witness:
  "\<exists>out. generateSimulationPath [normalAtOrigin, normalEast] 10 = Inr out \<and>
     length out = 2 \<and> heading (out ! 0) = 90 \<and> heading (out ! 1) = 90"
proof -
  have "\<exists>out. generateSimulationPath [normalAtOrigin, normalEast] 10 = Inr out \<and>
           length out = length [normalAtOrigin, normalEast] \<and>
           (\<forall>i. i < length [normalAtOrigin, normalEast] - 1 \<longrightarrow>
              heading (out ! i) =
                calculateBearing (Waypoint.lat ([normalAtOrigin, normalEast] ! i))
                  (Waypoint.lon ([normalAtOrigin, normalEast] ! i))
                  (Waypoint.lat ([normalAtOrigin, normalEast] ! (i + 1)))
                  (Waypoint.lon ([normalAtOrigin, normalEast] ! (i + 1)))) \<and>
           heading (out ! (length [normalAtOrigin, normalEast] - 1)) =
             heading (out ! (length [normalAtOrigin, normalEast] - 2))"
    by (rule normal_headings) (simp_all add: normalAtOrigin_def normalEast_def)
  then obtain out where o: "generateSimulationPath [normalAtOrigin, normalEast] 10 = Inr out"
      "length out = 2"
      "heading (out ! 0) = calculateBearing (Waypoint.lat normalAtOrigin) (Waypoint.lon normalAtOrigin)
                             (Waypoint.lat normalEast) (Waypoint.lon normalEast)"
      "heading (out ! 1) = heading (out ! 0)"
    by auto
  have "heading (out ! 0) = 90"
    using o(3) by (simp add: normalAtOrigin_def normalEast_def bearing_due_east)
  then show ?thesis using o by auto
qed

section \<open>Zero and negative laps\<close>

text \<open>The generator reads only the position, the altitude, the kind, the radius and the laps
  (with 0 read as 1) of a waypoint.\<close>

lemma orbitSample_cong:
  "Waypoint.lat c' = Waypoint.lat c \<Longrightarrow> Waypoint.lon c' = Waypoint.lon c \<Longrightarrow>
   Waypoint.alt c' = Waypoint.alt c \<Longrightarrow> orbitRadius c' = orbitRadius c \<Longrightarrow>
   orbitSample c' = orbitSample c"
  by (intro ext) (simp add: orbitSample_def)

lemma pathBefore_cong:
  assumes len: "length ws' = length ws"
    and same: "\<And>k. k < length ws \<Longrightarrow>
        Waypoint.lat (ws' ! k) = Waypoint.lat (ws ! k) \<and>
        Waypoint.lon (ws' ! k) = Waypoint.lon (ws ! k) \<and>
        Waypoint.alt (ws' ! k) = Waypoint.alt (ws ! k) \<and>
        type (ws' ! k) = type (ws ! k) \<and>
        orbitRadius (ws' ! k) = orbitRadius (ws ! k) \<and>
        (if orbitLaps (ws' ! k) = 0 then 1 else orbitLaps (ws' ! k)) =
          (if orbitLaps (ws ! k) = 0 then 1 else orbitLaps (ws ! k))"
  shows "k \<le> length ws \<Longrightarrow> pathBefore ws' speed k = pathBefore ws speed k"
proof (induction k)
  case 0
  show ?case by simp
next
  case (Suc k)
  then have lt: "k < length ws" and lt': "k < length ws'" using len by simp_all
  have ih: "pathBefore ws' speed k = pathBefore ws speed k" using Suc by simp
  note sk = same[OF lt]
  show ?case
  proof (cases "type (ws ! k)")
    case ORBIT
    then have ty': "type (ws' ! k) = ORBIT" using sk by simp
    have smp: "orbitSample (ws' ! k) = orbitSample (ws ! k)"
      using sk by (intro orbitSample_cong) simp_all
    have r: "orbitRadius (ws' ! k) = orbitRadius (ws ! k)" using sk by simp
    have l: "(if orbitLaps (ws' ! k) = 0 then 1 else orbitLaps (ws' ! k)) =
          (if orbitLaps (ws ! k) = 0 then 1 else orbitLaps (ws ! k))" using sk by simp
    show ?thesis
      by (simp only: pathBefore_orbit[OF lt ORBIT] pathBefore_orbit[OF lt' ty'] ih smp r l)
  next
    case NORMAL
    then have ty': "type (ws' ! k) = NORMAL" using sk by simp
    have nxt: "Suc k < length ws \<Longrightarrow>
        Waypoint.lat (ws' ! Suc k) = Waypoint.lat (ws ! Suc k) \<and>
        Waypoint.lon (ws' ! Suc k) = Waypoint.lon (ws ! Suc k)"
      using same[of "Suc k"] by simp
    show ?thesis
      using nxt sk by (simp add: pathBefore_normal[OF lt NORMAL] pathBefore_normal[OF lt' ty'] ih len
          del: pathBefore.simps)
  qed
qed

lemma generateSimulationPath_cong:
  assumes "length ws' = length ws"
    and "\<And>k. k < length ws \<Longrightarrow>
        Waypoint.lat (ws' ! k) = Waypoint.lat (ws ! k) \<and>
        Waypoint.lon (ws' ! k) = Waypoint.lon (ws ! k) \<and>
        Waypoint.alt (ws' ! k) = Waypoint.alt (ws ! k) \<and>
        type (ws' ! k) = type (ws ! k) \<and>
        orbitRadius (ws' ! k) = orbitRadius (ws ! k) \<and>
        (if orbitLaps (ws' ! k) = 0 then 1 else orbitLaps (ws' ! k)) =
          (if orbitLaps (ws ! k) = 0 then 1 else orbitLaps (ws ! k))"
  shows "generateSimulationPath ws' speed = generateSimulationPath ws speed"
  using pathBefore_cong[OF assms, of "length ws" speed] assms(1)
  by (simp add: generateSimulationPath_eq)

text \<open>C9: an orbit waypoint whose \<open>orbitLaps\<close> is 0 yields exactly the samples it would yield
  with \<open>orbitLaps = 1\<close>.\<close>

theorem zero_laps_as_one_lap:
  assumes "i < length waypoints"
    and "type (waypoints ! i) = ORBIT"
    and "orbitLaps (waypoints ! i) = 0"
  shows "generateSimulationPath waypoints speed =
           generateSimulationPath (waypoints[i := (waypoints ! i)\<lparr>orbitLaps := 1\<rparr>]) speed \<and>
         emitted waypoints speed i =
           emitted (waypoints[i := (waypoints ! i)\<lparr>orbitLaps := 1\<rparr>]) speed i"
proof -
  let ?ws' = "waypoints[i := (waypoints ! i)\<lparr>orbitLaps := 1\<rparr>]"
  have same: "Waypoint.lat (?ws' ! k) = Waypoint.lat (waypoints ! k) \<and>
        Waypoint.lon (?ws' ! k) = Waypoint.lon (waypoints ! k) \<and>
        Waypoint.alt (?ws' ! k) = Waypoint.alt (waypoints ! k) \<and>
        type (?ws' ! k) = type (waypoints ! k) \<and>
        orbitRadius (?ws' ! k) = orbitRadius (waypoints ! k) \<and>
        (if orbitLaps (?ws' ! k) = 0 then 1 else orbitLaps (?ws' ! k)) =
          (if orbitLaps (waypoints ! k) = 0 then 1 else orbitLaps (waypoints ! k))"
    if "k < length waypoints" for k
  proof (cases "k = i")
    case True
    then show ?thesis using assms(1,3) by simp
  next
    case False
    then show ?thesis by simp
  qed
  have eq: "k \<le> length waypoints \<Longrightarrow> pathBefore ?ws' speed k = pathBefore waypoints speed k" for k
    by (rule pathBefore_cong[OF _ same]) simp_all
  have "generateSimulationPath waypoints speed = generateSimulationPath ?ws' speed"
    using eq[of "length waypoints"] by (simp add: generateSimulationPath_eq)
  moreover have "emitted waypoints speed i = emitted ?ws' speed i"
    unfolding emitted_def using eq[of i] eq[of "Suc i"] assms(1) by simp
  ultimately show ?thesis by simp
qed

theorem zero_laps_as_one_lap_witness:
  "generateSimulationPath [normalEast, zeroLapsOrbit] 10 =
     generateSimulationPath [normalEast, zeroLapsOrbit\<lparr>orbitLaps := 1\<rparr>] 10"
  using zero_laps_as_one_lap[of 1 "[normalEast, zeroLapsOrbit]" 10]
  by (simp add: zeroLapsOrbit_def)

lemma stepCount_neg: "t < 0 \<Longrightarrow> stepCount t = 0"
  by (simp add: stepCount_def)

lemma pointsPerLap_pos: "0 < max (ceil x) 24"
  by (simp add: max_def)

text \<open>C10: an orbit waypoint whose \<open>orbitLaps\<close> is negative emits no sample; a normal waypoint
  that follows it, has no successor and finds no sample emitted before it receives the
  heading 0.\<close>

theorem negative_laps_emit_nothing:
  assumes "i < length waypoints"
    and "type (waypoints ! i) = ORBIT"
    and "orbitLaps (waypoints ! i) < 0"
  shows "emitted waypoints speed i = [] \<and>
         (pathBefore waypoints speed i = [] \<and> length waypoints = i + 2 \<and>
          type (waypoints ! (i + 1)) = NORMAL \<longrightarrow>
            emitted waypoints speed (i + 1) =
              [\<lparr>SimulatedPoint.lat = Waypoint.lat (waypoints ! (i + 1)),
                SimulatedPoint.lon = Waypoint.lon (waypoints ! (i + 1)),
                SimulatedPoint.alt = Waypoint.alt (waypoints ! (i + 1)),
                heading = 0, isOrbit = False\<rparr>])"
proof -
  have "max (ceil (2 * pi * orbitRadius (waypoints ! i) / lapDivisor speed / 1)) 24 *
          (if orbitLaps (waypoints ! i) = 0 then 1 else orbitLaps (waypoints ! i)) < 0"
    using assms(3) pointsPerLap_pos[of "2 * pi * orbitRadius (waypoints ! i) / lapDivisor speed / 1"]
    by (simp add: mult_pos_neg)
  then have none: "emitted waypoints speed i = []"
    by (simp add: emitted_orbit[OF assms(1,2)] stepCount_neg)
  have "emitted waypoints speed (i + 1) =
              [\<lparr>SimulatedPoint.lat = Waypoint.lat (waypoints ! (i + 1)),
                SimulatedPoint.lon = Waypoint.lon (waypoints ! (i + 1)),
                SimulatedPoint.alt = Waypoint.alt (waypoints ! (i + 1)),
                heading = 0, isOrbit = False\<rparr>]"
    if h: "pathBefore waypoints speed i = []" "length waypoints = i + 2"
       "type (waypoints ! (i + 1)) = NORMAL"
  proof -
    have lt: "Suc i < length waypoints" using h(2) by simp
    have ty: "type (waypoints ! Suc i) = NORMAL" using h(3) by simp
    have "pathBefore waypoints speed (Suc i) = []"
      using pathBefore_Suc[OF assms(1), of speed] none h(1) by simp
    then show ?thesis
      using h(2) by (simp add: emitted_normal[OF lt ty] del: pathBefore.simps)
  qed
  with none show ?thesis by blast
qed

theorem negative_laps_emit_nothing_witness:
  "generateSimulationPath [backwardsOrbit, normalEast] 10 =
     Inr [\<lparr>SimulatedPoint.lat = 0, SimulatedPoint.lon = 1, SimulatedPoint.alt = 10,
           heading = 0, isOrbit = False\<rparr>]"
proof -
  have "emitted [backwardsOrbit, normalEast] 10 0 = [] \<and>
        emitted [backwardsOrbit, normalEast] 10 (0 + 1) =
          [\<lparr>SimulatedPoint.lat = Waypoint.lat ([backwardsOrbit, normalEast] ! (0 + 1)),
            SimulatedPoint.lon = Waypoint.lon ([backwardsOrbit, normalEast] ! (0 + 1)),
            SimulatedPoint.alt = Waypoint.alt ([backwardsOrbit, normalEast] ! (0 + 1)),
            heading = 0, isOrbit = False\<rparr>]"
    using negative_laps_emit_nothing[of 0 "[backwardsOrbit, normalEast]" 10]
    by (simp add: backwardsOrbit_def normalEast_def)
  then show ?thesis
    by (simp add: generateSimulationPath_concat normalEast_def)
qed

section \<open>The range of a bearing\<close>

text \<open>\<open>calculateBearing\<close> returns a value in the half-open range from 0 to 360, whatever its
  four arguments: \<open>atan2\<close> lies in \<open>(-pi, pi]\<close>, so the remainder is taken of a number above 180.\<close>

lemma atan2_bounds: "- pi < atan2 y x \<and> atan2 y x \<le> pi"
proof -
  have lo: "- (pi / 2) < arctan (y / x)" and hi: "arctan (y / x) < pi / 2"
    by (rule arctan_lbound, rule arctan_ubound)
  consider "0 < x" | "x < 0" "0 \<le> y" | "x < 0" "y < 0" | "x = 0" "0 < y" | "x = 0" "y < 0"
    | "x = 0" "y = 0"
    by linarith
  then show ?thesis
  proof cases
    case 1
    then have "atan2 y x = arctan (y / x)" by (simp add: atan2_def)
    then show ?thesis using lo hi pi_gt_zero by linarith
  next
    case 2
    then have "y / x \<le> 0" by (simp add: divide_nonneg_neg)
    then have "arctan (y / x) \<le> 0" by (simp only: arctan_le_zero_iff)
    moreover have "atan2 y x = arctan (y / x) + pi" using 2 by (simp add: atan2_def)
    ultimately show ?thesis using lo pi_gt_zero by linarith
  next
    case 3
    then have "0 < y / x" by (simp add: divide_neg_neg)
    then have "0 < arctan (y / x)" by (simp only: zero_less_arctan_iff)
    moreover have "atan2 y x = arctan (y / x) - pi" using 3 by (simp add: atan2_def)
    ultimately show ?thesis using hi pi_gt_zero by linarith
  next
    case 4
    then have "atan2 y x = pi / 2" by (simp add: atan2_def)
    then show ?thesis using pi_gt_zero by linarith
  next
    case 5
    then have "atan2 y x = - (pi / 2)" by (simp add: atan2_def)
    then show ?thesis using pi_gt_zero by linarith
  next
    case 6
    then have "atan2 y x = 0" by (simp add: atan2_def)
    then show ?thesis using pi_gt_zero by linarith
  qed
qed

lemma jsRem_360_range:
  assumes "0 \<le> a"
  shows "0 \<le> jsRem a 360 \<and> jsRem a 360 < 360"
proof -
  have q: "0 \<le> a / 360" using assms by simp
  then have eq: "jsRem a 360 = a - 360 * of_int \<lfloor>a / 360\<rfloor>"
    by (simp add: jsRem_def jsTrunc_def)
  have "of_int \<lfloor>a / 360\<rfloor> \<le> a / 360" "a / 360 < of_int \<lfloor>a / 360\<rfloor> + 1"
    by linarith+
  then show ?thesis unfolding eq by linarith
qed

lemma calculateBearing_range:
  "0 \<le> calculateBearing startLat startLon destLat destLon \<and>
   calculateBearing startLat startLon destLat destLon < 360"
proof -
  define brng where "brng = atan2
     (sin (toRadians destLon - toRadians startLon) * cos (toRadians destLat))
     (cos (toRadians startLat) * sin (toRadians destLat) -
      sin (toRadians startLat) * cos (toRadians destLat) * cos (toRadians destLon - toRadians startLon))"
  have "- pi < brng" using atan2_bounds by (simp add: brng_def)
  then have "- 180 < toDegrees brng"
    using pi_gt_zero by (simp add: toDegrees_def pos_less_divide_eq)
  then have "0 \<le> toDegrees brng + 360" by simp
  then have "0 \<le> jsRem (toDegrees brng + 360) 360 \<and> jsRem (toDegrees brng + 360) 360 < 360"
    by (rule jsRem_360_range)
  then show ?thesis by (simp add: calculateBearing_def Let_def brng_def)
qed

section \<open>Projection followed by bearing\<close>




























section \<open>The empty list\<close>

text \<open>C7: applied to an empty waypoint list, the generator returns the empty path, and
  not an error.\<close>

theorem generateSimulationPath_empty:
  "generateSimulationPath [] speed = Inr []"
  by (simp add: generateSimulationPath_def)

section \<open>The generator on an engine\<close>

text \<open>The value of \<open>pointsPerLap\<close> is NaN, infinite or an integer from 24 on; it is never zero,
  and on a well-formed engine neither is the divisor of the lap time.\<close>

lemma maxD_commute: "maxD a b = maxD b a"
  by (cases a; cases b) (auto simp: maxD_def)

lemma pointsPerLap_cases:
  "maxD (ceilD q) (Finite 24) = NaN \<or> maxD (ceilD q) (Finite 24) = PosInfinity \<or>
   (\<exists>m::int. 24 \<le> m \<and> maxD (ceilD q) (Finite 24) = Finite (of_int m))"
proof (cases q)
  case (Finite x)
  have "maxD (ceilD q) (Finite 24) = Finite (of_int (max \<lceil>x\<rceil> 24))"
    unfolding Finite by (simp add: maxD_def ceilD_def max_def)
  moreover have "24 \<le> max \<lceil>x\<rceil> 24" by simp
  ultimately show ?thesis by blast
next
  case PosInfinity
  then show ?thesis by (simp add: maxD_def ceilD_def)
next
  case NegInfinity
  have "maxD (ceilD q) (Finite 24) = Finite (of_int 24)"
    unfolding NegInfinity by (simp add: maxD_def ceilD_def)
  then show ?thesis by blast
next
  case NaN
  then show ?thesis by (simp add: maxD_def ceilD_def)
qed

lemma pointsPerLap_nonzero: "maxD (ceilD q) (Finite 24) \<noteq> Finite 0"
  using pointsPerLap_cases[of q] by auto

lemma divisor_nonzero:
  assumes "wellFormed E"
  shows "maxD (fl E (1 / 10)) speed \<noteq> Finite 0"
proof -
  obtain t where t: "0 < t" "fl E (1 / 10) = Finite t"
    using assms by (auto simp: wellFormed_def)
  show ?thesis
    unfolding t(2) using t(1) by (cases speed) (auto simp: maxD_def)
qed

text \<open>Hence none of the three divisions of the orbit branch has a zero divisor, and the
  branch is the inner loop run with the values of \<open>angleStep\<close> and \<open>totalSteps\<close> that plain
  division gives.\<close>

lemma orbitBranchD_eq:
  assumes "wellFormed E"
  shows "orbitBranchD E current speed path =
           orbitLoopD E current
             (quotD E (Finite 360) (pointsPerLapD E (orbitRadiusD current) speed))
             (mulD E (pointsPerLapD E (orbitRadiusD current) speed) (lapsD current)) 0 path"
  using divisor_nonzero[OF assms, of speed]
  by (simp add: orbitBranchD_def Let_def divide_def pointsPerLap_nonzero pointsPerLapD_def lapsD_def
      maxD_commute[of "Finite 24"])

text \<open>The inner loop pushes the samples of the steps from \<open>j\<close> on, if the array can hold them.\<close>

lemma leD_steps:
  "leD (Finite (real j)) totalSteps = (case stepsD totalSteps of None \<Rightarrow> True | Some n \<Rightarrow> j < n)"
  by (cases totalSteps) (simp_all add: stepsD_def stepCount_le)

lemma orbitLoopD_eq:
  "length path \<le> capacity E \<Longrightarrow>
   orbitLoopD E current angleStep totalSteps j path =
     (case stepsD totalSteps of
        Some n \<Rightarrow>
          if length path + (n - j) \<le> capacity E
          then Inr (path @ map (orbitSampleD E current angleStep) [j ..< n])
          else Inl RangeError
      | None \<Rightarrow> Inl RangeError)"
proof (induction E current angleStep totalSteps j path rule: orbitLoopD.induct)
  case (1 E current angleStep totalSteps j path)
  show ?case
  proof (cases "leD (Finite (real j)) totalSteps")
    case False
    then obtain n where n: "stepsD totalSteps = Some n" "\<not> j < n"
      by (auto simp: leD_steps split: option.splits)
    have "orbitLoopD E current angleStep totalSteps j path = Inr path"
      using False by (subst orbitLoopD.simps) simp
    then show ?thesis using n "1.prems" by simp
  next
    case True
    show ?thesis
    proof (cases "length path < capacity E")
      case False
      have "orbitLoopD E current angleStep totalSteps j path = Inl RangeError"
        using True False by (subst orbitLoopD.simps) (simp add: push_def)
      moreover have "stepsD totalSteps = Some n \<Longrightarrow> \<not> length path + (n - j) \<le> capacity E" for n
        using True False by (auto simp: leD_steps)
      ultimately show ?thesis by (auto split: option.splits)
    next
      case room: True
      let ?x = "orbitSampleD E current angleStep j"
      have p: "push E path ?x = Inr (path @ [?x])" using room by (simp add: push_def)
      have "orbitLoopD E current angleStep totalSteps j path =
            orbitLoopD E current angleStep totalSteps (j + 1) (path @ [?x])"
        using True p by (subst orbitLoopD.simps) simp
      also have "\<dots> =
        (case stepsD totalSteps of
           Some n \<Rightarrow>
             if length (path @ [?x]) + (n - (j + 1)) \<le> capacity E
             then Inr ((path @ [?x]) @ map (orbitSampleD E current angleStep) [j + 1 ..< n])
             else Inl RangeError
         | None \<Rightarrow> Inl RangeError)"
        using "1.IH"[OF True p] room by simp
      also have "\<dots> =
        (case stepsD totalSteps of
           Some n \<Rightarrow>
             if length path + (n - j) \<le> capacity E
             then Inr (path @ map (orbitSampleD E current angleStep) [j ..< n])
             else Inl RangeError
         | None \<Rightarrow> Inl RangeError)"
      proof (cases "stepsD totalSteps")
        case None
        then show ?thesis by simp
      next
        case (Some n)
        then have lt: "j < n" using True by (simp add: leD_steps)
        then have a: "length (path @ [?x]) + (n - (j + 1)) = length path + (n - j)" by simp
        have b: "(path @ [?x]) @ map (orbitSampleD E current angleStep) [j + 1 ..< n] =
                 path @ map (orbitSampleD E current angleStep) [j ..< n]"
          using lt by (simp add: upt_conv_Cons)
        show ?thesis unfolding Some option.case a b ..
      qed
      finally show ?thesis .
    qed
  qed
qed

lemma loopBodyD_in:
  "i < length waypoints \<Longrightarrow>
   loopBodyD E waypoints speed i path =
     (if typeD (waypoints ! i) = ORBIT
      then orbitBranchD E (waypoints ! i) speed path
      else normalBranchD E (waypoints ! i) (idx waypoints (int i + 1)) i path)"
  by (simp add: loopBodyD_def idx_in)

text \<open>What one iteration of the outer loop does to the path, on a well-formed engine.\<close>

lemma loopBodyD_outcome:
  assumes "wellFormed E" and "i < length waypoints" and "length path \<le> capacity E"
  shows "(\<exists>seg. loopBodyD E waypoints speed i path = Inr (path @ seg) \<and>
            samplesD E (waypoints ! i) speed = Some (length seg) \<and>
            length path + length seg \<le> capacity E) \<or>
         (loopBodyD E waypoints speed i path = Inl RangeError \<and>
          (\<forall>n. samplesD E (waypoints ! i) speed = Some n \<longrightarrow> capacity E < length path + n))"
proof (cases "typeD (waypoints ! i) = ORBIT")
  case True
  let ?t = "mulD E (pointsPerLapD E (orbitRadiusD (waypoints ! i)) speed) (lapsD (waypoints ! i))"
  let ?a = "quotD E (Finite 360) (pointsPerLapD E (orbitRadiusD (waypoints ! i)) speed)"
  have s: "samplesD E (waypoints ! i) speed = stepsD ?t" using True by (simp add: samplesD_def)
  have b: "loopBodyD E waypoints speed i path = orbitLoopD E (waypoints ! i) ?a ?t 0 path"
    using True assms by (simp add: loopBodyD_in orbitBranchD_eq)
  show ?thesis
  proof (cases "stepsD ?t")
    case None
    then show ?thesis unfolding s b orbitLoopD_eq[OF assms(3)] by simp
  next
    case (Some n)
    show ?thesis
    proof (cases "length path + n \<le> capacity E")
      case True
      have "loopBodyD E waypoints speed i path =
            Inr (path @ map (orbitSampleD E (waypoints ! i) ?a) [0 ..< n])"
        unfolding b orbitLoopD_eq[OF assms(3)] using Some True by simp
      moreover have "length (map (orbitSampleD E (waypoints ! i) ?a) [0 ..< n]) = n" by simp
      ultimately show ?thesis using Some True s by (metis)
    next
      case False
      then show ?thesis unfolding s b orbitLoopD_eq[OF assms(3)] using Some by simp
    qed
  qed
next
  case False
  have s: "samplesD E (waypoints ! i) speed = Some 1" using False by (simp add: samplesD_def)
  have b: "loopBodyD E waypoints speed i path =
           normalBranchD E (waypoints ! i) (idx waypoints (int i + 1)) i path"
    using False assms by (simp add: loopBodyD_in)
  show ?thesis
  proof (cases "length path < capacity E")
    case True
    then obtain x where "loopBodyD E waypoints speed i path = Inr (path @ [x])"
      unfolding b by (simp add: normalBranchD_def Let_def push_def)
    moreover have "length [x] = 1" by simp
    ultimately show ?thesis using s True
      by (metis Suc_eq_plus1 Suc_leI)
  next
    case False
    then have "loopBodyD E waypoints speed i path = Inl RangeError"
      unfolding b by (simp add: normalBranchD_def Let_def push_def)
    then show ?thesis using s False by simp
  qed
qed

text \<open>The run up to index \<open>k\<close>: a path with as many samples as the first \<open>k\<close> waypoints demand,
  or a \<open>RangeError\<close> when they demand more than an array holds.\<close>

lemma pathBeforeD_outcome:
  assumes "wellFormed E"
  shows "k \<le> length waypoints \<Longrightarrow>
         (\<exists>p. pathBeforeD E waypoints speed k = Inr p \<and>
              demandD E waypoints speed k = Some (length p) \<and> length p \<le> capacity E) \<or>
         (pathBeforeD E waypoints speed k = Inl RangeError \<and>
          (\<forall>n. demandD E waypoints speed k = Some n \<longrightarrow> capacity E < n))"
proof (induction k)
  case 0
  show ?case by simp
next
  case (Suc k)
  then have lt: "k < length waypoints" by simp
  from Suc have "(\<exists>p. pathBeforeD E waypoints speed k = Inr p \<and>
              demandD E waypoints speed k = Some (length p) \<and> length p \<le> capacity E) \<or>
         (pathBeforeD E waypoints speed k = Inl RangeError \<and>
          (\<forall>n. demandD E waypoints speed k = Some n \<longrightarrow> capacity E < n))"
    by simp
  then show ?case
  proof
    assume "\<exists>p. pathBeforeD E waypoints speed k = Inr p \<and>
              demandD E waypoints speed k = Some (length p) \<and> length p \<le> capacity E"
    then obtain p where p: "pathBeforeD E waypoints speed k = Inr p"
      "demandD E waypoints speed k = Some (length p)" "length p \<le> capacity E"
      by blast
    from loopBodyD_outcome[OF assms lt p(3), of speed] show ?thesis
    proof
      assume "\<exists>seg. loopBodyD E waypoints speed k p = Inr (p @ seg) \<and>
            samplesD E (waypoints ! k) speed = Some (length seg) \<and>
            length p + length seg \<le> capacity E"
      then obtain seg where seg: "loopBodyD E waypoints speed k p = Inr (p @ seg)"
        "samplesD E (waypoints ! k) speed = Some (length seg)"
        "length p + length seg \<le> capacity E"
        by blast
      have "pathBeforeD E waypoints speed (Suc k) = Inr (p @ seg)" using p(1) seg(1) by simp
      moreover have "demandD E waypoints speed (Suc k) = Some (length (p @ seg))"
        using p(2) seg(2) by simp
      moreover have "length (p @ seg) \<le> capacity E" using seg(3) by simp
      ultimately show ?thesis by blast
    next
      assume f: "loopBodyD E waypoints speed k p = Inl RangeError \<and>
          (\<forall>n. samplesD E (waypoints ! k) speed = Some n \<longrightarrow> capacity E < length p + n)"
      then have "pathBeforeD E waypoints speed (Suc k) = Inl RangeError" using p(1) by simp
      moreover have "\<forall>n. demandD E waypoints speed (Suc k) = Some n \<longrightarrow> capacity E < n"
        using f p(2) by (auto split: option.splits)
      ultimately show ?thesis by blast
    qed
  next
    assume f: "pathBeforeD E waypoints speed k = Inl RangeError \<and>
          (\<forall>n. demandD E waypoints speed k = Some n \<longrightarrow> capacity E < n)"
    then have "pathBeforeD E waypoints speed (Suc k) = Inl RangeError" by simp
    moreover have "\<forall>n. demandD E waypoints speed (Suc k) = Some n \<longrightarrow> capacity E < n"
      using f by (auto split: option.splits)
    ultimately show ?thesis by blast
  qed
qed

text \<open>The generator returns the state of the run at the end of the list.\<close>

lemma pathBeforeD_stuck:
  "pathBeforeD E waypoints speed i = Inl e \<Longrightarrow> pathBeforeD E waypoints speed (i + n) = Inl e"
  by (induction n) simp_all

lemma genLoopD_from:
  "i \<le> length waypoints \<Longrightarrow> pathBeforeD E waypoints speed i = Inr p \<Longrightarrow>
   genLoopD E waypoints speed i p = pathBeforeD E waypoints speed (length waypoints)"
proof (induction "length waypoints - i" arbitrary: i p)
  case 0
  then have "i = length waypoints" by simp
  then show ?case using 0 by (subst genLoopD.simps) simp
next
  case (Suc n)
  then have lt: "i < length waypoints" by simp
  have nxt: "pathBeforeD E waypoints speed (Suc i) = loopBodyD E waypoints speed i p"
    using Suc.prems(2) by simp
  show ?case
  proof (cases "loopBodyD E waypoints speed i p")
    case (Inl e)
    have "genLoopD E waypoints speed i p = Inl e"
      using lt Inl by (subst genLoopD.simps) simp
    moreover have "pathBeforeD E waypoints speed (Suc i + (length waypoints - Suc i)) = Inl e"
      using nxt Inl by (intro pathBeforeD_stuck) simp
    moreover have "Suc i + (length waypoints - Suc i) = length waypoints" using lt by simp
    ultimately show ?thesis by (simp only:)
  next
    case (Inr p')
    have "genLoopD E waypoints speed i p = genLoopD E waypoints speed (i + 1) p'"
      using lt Inr by (subst genLoopD.simps) simp
    also have "\<dots> = pathBeforeD E waypoints speed (length waypoints)"
      using Suc.hyps(1)[of "Suc i" p'] Suc.hyps(2) lt nxt Inr by simp
    finally show ?thesis .
  qed
qed

lemma generateSimulationPathD_eq:
  "generateSimulationPathD E waypoints speed = pathBeforeD E waypoints speed (length waypoints)"
proof (cases "length waypoints < 1")
  case True
  then show ?thesis by (simp add: generateSimulationPathD_def)
next
  case False
  then show ?thesis
    using genLoopD_from[of 0 waypoints E speed "[]"] by (simp add: generateSimulationPathD_def)
qed

text \<open>A speed of zero or less reaches the orbit branch only through \<open>Math.max(0.1, speed)\<close>.\<close>

lemma orbitBranchD_clamp:
  assumes "wellFormed E" and "s \<le> 0"
  shows "orbitBranchD E current (Finite s) = orbitBranchD E current (fl E (1 / 10))"
proof -
  obtain t where t: "0 < t" "fl E (1 / 10) = Finite t"
    using assms(1) by (auto simp: wellFormed_def)
  have "maxD (fl E (1 / 10)) (Finite s) = maxD (fl E (1 / 10)) (fl E (1 / 10))"
    unfolding t(2) using t(1) assms(2) by (simp add: maxD_def)
  then show ?thesis by (intro ext) (simp add: orbitBranchD_def)
qed

lemma pathBeforeD_clamp:
  assumes "wellFormed E" and "s \<le> 0"
  shows "pathBeforeD E waypoints (Finite s) k = pathBeforeD E waypoints (fl E (1 / 10)) k"
proof (induction k)
  case 0
  show ?case by simp
next
  case (Suc k)
  have b: "loopBodyD E waypoints (Finite s) k = loopBodyD E waypoints (fl E (1 / 10)) k"
    by (intro ext) (simp add: loopBodyD_def orbitBranchD_clamp[OF assms] split: option.splits)
  show ?case by (simp only: pathBeforeD.simps Suc b)
qed

text \<open>The engine without rounding, and the numbers of samples on it.\<close>

lemma wellFormed_exactEngine: "wellFormed exactEngine"
proof -
  have "\<exists>t::real. 0 < t \<and> Finite (1 / 10) = Finite t" by (intro exI[of _ "1 / 10"]) simp
  then show ?thesis by (simp add: wellFormed_def exactEngine_def)
qed

lemma maxD_Finite: "maxD (Finite a) (Finite b) = Finite (max a b)"
  by (simp add: maxD_def max_def)

lemma pointsPerLapD_exact:
  "pointsPerLapD exactEngine (Finite r) (Finite s) =
     Finite (of_int (max 24 \<lceil>2 * pi * r / max (1 / 10) s / 1\<rceil>))"
  by (simp add: pointsPerLapD_def exactEngine_def mulD_def quotD_def ceilD_def maxD_Finite max_def)

text \<open>The number of steps for a whole number of steps \<open>k\<close>: \<open>k + 1\<close>, unless \<open>k\<close> is beyond the
  integers that are doubles, and then more than \<open>2 ^ 53\<close>.\<close>

lemma steps_of_integer:
  assumes "wellFormed E" and "0 \<le> k"
  shows "stepsD (fl E (of_int k)) = Some (nat k + 1) \<or>
         (2 ^ 53 < k \<and> (\<forall>n. stepsD (fl E (of_int k)) = Some n \<longrightarrow> 2 ^ 53 < n))"
proof (cases "k \<le> 2 ^ 53")
  case True
  then have "fl E (of_int k) = Finite (of_int k)"
    using assms by (simp add: wellFormed_def)
  moreover have "stepCount (of_int k) = nat k + 1"
    using assms(2) by (simp add: stepCount_def)
  ultimately show ?thesis by (simp add: stepsD_def)
next
  case False
  have e: "fl E (of_int (2 ^ 53 :: int)) = Finite (of_int (2 ^ 53))"
    using assms(1) unfolding wellFormed_def by (metis abs_of_nonneg order_refl zero_le_numeral zero_le_power)
  have "(of_int (2 ^ 53 :: int) :: real) \<le> of_int k" using False by simp
  then have "leD (fl E (of_int (2 ^ 53 :: int))) (fl E (of_int k))"
    using assms(1) unfolding wellFormed_def by blast
  then have le: "leD (Finite (2 ^ 53)) (fl E (of_int k))" unfolding e by simp
  have "2 ^ 53 < n" if "stepsD (fl E (of_int k)) = Some n" for n
  proof (cases "fl E (of_int k)")
    case (Finite t)
    then have t: "2 ^ 53 \<le> t" using le by simp
    then have "(2 ^ 53 :: int) \<le> \<lfloor>t\<rfloor>" by (simp add: le_floor_iff)
    then have "nat (2 ^ 53) \<le> nat \<lfloor>t\<rfloor>" by (rule nat_mono)
    then have "2 ^ 53 \<le> nat \<lfloor>t\<rfloor>" by simp
    moreover have "n = nat \<lfloor>t\<rfloor> + 1"
      using that t Finite by (simp add: stepsD_def stepCount_def split: if_splits)
    ultimately show ?thesis by simp
  next
    case PosInfinity
    then show ?thesis using that by (simp add: stepsD_def)
  next
    case NegInfinity
    then show ?thesis using le by simp
  next
    case NaN
    then show ?thesis using le by simp
  qed
  then show ?thesis using False by auto
qed

lemma demand_degenerate:
  "demandD exactEngine [degenerateOrbitD, normalEastD] (Finite (- 5)) 2 = Some 26"
proof -
  have l: "lapsD degenerateOrbitD = Finite 1" by (simp add: lapsD_def falsy_def degenerateOrbitD_def)
  have "2 * pi * (- 3) / max (1 / 10) (- 5) / 1 = - (60 * pi)" by simp
  moreover have "- (60 * pi) \<le> 24" using pi_gt_zero by linarith
  ultimately have "2 * pi * (- 3) / max (1 / 10) (- 5) / 1 \<le> 24" by (simp only:)
  then have "\<lceil>2 * pi * (- 3) / max (1 / 10) (- 5) / 1\<rceil> \<le> (24::int)" by (simp only: ceiling_le_iff)
  then have m: "max 24 \<lceil>2 * pi * (- 3) / max (1 / 10) (- 5) / 1\<rceil> = (24::int)" by (rule max_absorb1)
  have p: "pointsPerLapD exactEngine (orbitRadiusD degenerateOrbitD) (Finite (- 5)) = Finite 24"
    by (simp only: degenerateOrbitD_def WaypointD.simps pointsPerLapD_exact m) simp
  have "mulD exactEngine (Finite 24) (Finite 1) = Finite 24" by (simp add: mulD_def exactEngine_def)
  moreover have "stepCount 24 = 25" by (simp add: stepCount_def)
  ultimately have s0: "samplesD exactEngine degenerateOrbitD (Finite (- 5)) = Some 25"
    by (simp add: samplesD_def p l stepsD_def) (simp add: degenerateOrbitD_def)
  have s1: "samplesD exactEngine normalEastD (Finite (- 5)) = Some 1"
    by (simp add: samplesD_def normalEastD_def)
  have "demandD exactEngine [degenerateOrbitD, normalEastD] (Finite (- 5)) (Suc (Suc 0)) = Some 26"
    by (simp add: s0 s1)
  then show ?thesis by (simp only: numeral_2_eq_2)
qed

section \<open>Bounds on pi\<close>

text \<open>The partial sums of the series of the arc tangent enclose it, and Machin's formula gives
  eighteen digits of \<open>pi\<close>.\<close>

lemma arctan_partial_sums:
  fixes x :: real
  assumes "0 \<le> x" and "x \<le> 1"
  shows "(\<Sum>i<2 * n. (- 1) ^ i * (1 / real (i * 2 + 1) * x ^ (i * 2 + 1))) \<le> arctan x"
    and "arctan x \<le> (\<Sum>i<2 * n + 1. (- 1) ^ i * (1 / real (i * 2 + 1) * x ^ (i * 2 + 1)))"
proof -
  let ?a = "\<lambda>i. 1 / real (i * 2 + 1) * x ^ (i * 2 + 1)"
  have ax: "\<bar>x\<bar> \<le> 1" using assms by simp
  have z: "?a \<longlonglongrightarrow> 0" using ax by (rule zeroseq_arctan_series)
  have p: "0 \<le> ?a i" for i using assms by simp
  have m: "?a (Suc i) \<le> ?a i" for i
  proof -
    have "x ^ (Suc i * 2 + 1) \<le> x ^ (i * 2 + 1)"
      using assms by (intro power_decreasing) simp_all
    moreover have "1 / real (Suc i * 2 + 1) \<le> 1 / real (i * 2 + 1)"
      by (intro divide_left_mono) simp_all
    moreover have "0 \<le> x ^ (Suc i * 2 + 1)" "0 \<le> 1 / real (i * 2 + 1)" using assms by simp_all
    ultimately show ?thesis by (intro mult_mono) simp_all
  qed
  have s: "arctan x = (\<Sum>i. (- 1) ^ i * ?a i)" using ax by (rule arctan_series)
  show "(\<Sum>i<2 * n. (- 1) ^ i * ?a i) \<le> arctan x"
    unfolding s using z p m by (rule summable_Leibniz'(2))
  show "arctan x \<le> (\<Sum>i<2 * n + 1. (- 1) ^ i * ?a i)"
    unfolding s using z p m by (rule summable_Leibniz'(4))
qed

lemma pi_lower: "314159265358979323 / 100000000000000000 < pi"
proof -
  have a: "(\<Sum>i<2 * 7. (- 1) ^ i * (1 / real (i * 2 + 1) * (1 / 5) ^ (i * 2 + 1))) \<le> arctan (1 / 5)"
    by (rule arctan_partial_sums) simp_all
  have b: "arctan (1 / 239) \<le> (\<Sum>i<2 * 2 + 1. (- 1) ^ i * (1 / real (i * 2 + 1) * (1 / 239) ^ (i * 2 + 1)))"
    by (rule arctan_partial_sums) simp_all
  have "pi = 16 * arctan (1 / 5) - 4 * arctan (1 / 239)" using machin by simp
  moreover have "314159265358979323 / 100000000000000000 <
      16 * (\<Sum>i<2 * 7. (- 1) ^ i * (1 / real (i * 2 + 1) * (1 / 5) ^ (i * 2 + 1))) -
      4 * (\<Sum>i<2 * 2 + 1. (- 1) ^ i * (1 / real (i * 2 + 1) * (1 / 239) ^ (i * 2 + 1)))"
    by (simp add: eval_nat_numeral)
  ultimately show ?thesis using a b by linarith
qed

lemma pi_upper: "pi < 314159265358979324 / 100000000000000000"
proof -
  have a: "arctan (1 / 5) \<le> (\<Sum>i<2 * 7 + 1. (- 1) ^ i * (1 / real (i * 2 + 1) * (1 / 5) ^ (i * 2 + 1)))"
    by (rule arctan_partial_sums) simp_all
  have b: "(\<Sum>i<2 * 2. (- 1) ^ i * (1 / real (i * 2 + 1) * (1 / 239) ^ (i * 2 + 1))) \<le> arctan (1 / 239)"
    by (rule arctan_partial_sums) simp_all
  have "pi = 16 * arctan (1 / 5) - 4 * arctan (1 / 239)" using machin by simp
  moreover have "16 * (\<Sum>i<2 * 7 + 1. (- 1) ^ i * (1 / real (i * 2 + 1) * (1 / 5) ^ (i * 2 + 1))) -
      4 * (\<Sum>i<2 * 2. (- 1) ^ i * (1 / real (i * 2 + 1) * (1 / 239) ^ (i * 2 + 1))) <
      314159265358979324 / 100000000000000000"
    by (simp add: eval_nat_numeral)
  ultimately show ?thesis using a b by linarith
qed

section \<open>Rounding to the nearest double\<close>

text \<open>The double nearest to a number in a known binade.\<close>

lemma roundEven_near:
  assumes "\<bar>q - of_int n\<bar> < 1 / 2"
  shows "roundEven q = n"
proof (cases "of_int n \<le> q")
  case True
  have "of_int n \<le> q \<and> q < of_int n + 1" using assms True by linarith
  then have f: "\<lfloor>q\<rfloor> = n" by (simp add: floor_eq_iff)
  have "q - of_int n < 1 / 2" using assms True by linarith
  then show ?thesis unfolding roundEven_def Let_def f by simp
next
  case False
  have "of_int (n - 1) \<le> q \<and> q < of_int (n - 1) + 1" using assms False by simp
  then have f: "\<lfloor>q\<rfloor> = n - 1" by (simp only: floor_eq_iff)
  have "1 / 2 < q - of_int (n - 1)" using assms False by simp
  then show ?thesis unfolding roundEven_def Let_def f by simp
qed

lemma binade_eq:
  assumes "0 < x" and "2 powr of_int e \<le> x" and "x < 2 powr of_int (e + 1)" and "- 1022 \<le> e"
  shows "binade x = e"
proof -
  have "\<lfloor>log 2 x\<rfloor> = e" using assms(1-3) by (simp add: floor_log_eq_powr_iff)
  then show ?thesis using assms(1,4) by (simp add: binade_def)
qed

lemma fl64_eval:
  fixes x u :: real
  assumes "0 < x" and "2 powr of_int e \<le> x" and "x < 2 powr of_int (e + 1)" and "- 1022 \<le> e"
    and "u = 2 powr of_int (e - 52)"
    and "\<bar>x / u - of_int n\<bar> < 1 / 2"
    and "of_int n * u < 2 ^ 1024"
  shows "fl64 x = Finite (of_int n * u)"
proof -
  have b: "binade x = e" using assms(1-4) by (rule binade_eq)
  have up: "ulp x = u" unfolding ulp_def b assms(5) ..
  have r: "roundEven (x / u) = n" using assms(6) by (rule roundEven_near)
  have upos: "0 < u" unfolding assms(5) by simp
  have "0 < x / u" using assms(1) upos by simp
  then have "- (1 / 2) < real_of_int n" using assms(6) by linarith
  then have "0 \<le> n" by linarith
  then have "0 \<le> of_int n * u" using upos by simp
  moreover have "(0::real) < 2 ^ 1024" by simp
  ultimately have lo: "\<not> of_int n * u \<le> - (2 ^ 1024)" by linarith
  have hi: "\<not> 2 ^ 1024 \<le> of_int n * u" using assms(7) by simp
  show ?thesis using assms(1) lo hi unfolding fl64_def nearest_def up r by simp
qed

lemma fl64_25: "fl64 25 = Finite 25"
  using fl64_eval[of 25 4 "1 / 2 ^ 48" "25 * 2 ^ 48"] by (simp add: powr_minus)

lemma fl64_tenth: "fl64 (1 / 10) = Finite (7205759403792794 / 2 ^ 56)"
  using fl64_eval[of "1 / 10" "- 4" "1 / 2 ^ 56" 7205759403792794] by (simp add: powr_minus)

lemma fl64_pi: "fl64 pi = Finite (884279719003555 / 2 ^ 48)"
proof -
  have "\<bar>pi / (1 / 2 ^ 51) - of_int 7074237752028440\<bar> < 1 / 2"
    using pi_lower pi_upper by (simp add: abs_less_iff field_simps)
  then show ?thesis
    using fl64_eval[of pi 1 "1 / 2 ^ 51" 7074237752028440] pi_gt_zero pi_ge_two pi_less_4
    by (simp add: powr_minus)
qed

lemma fl64_two_pi: "fl64 (2 * (884279719003555 / 2 ^ 48)) = Finite (884279719003555 / 2 ^ 47)"
  using fl64_eval[of "2 * (884279719003555 / 2 ^ 48)" 2 "1 / 2 ^ 50" 7074237752028440]
  by (simp add: powr_minus)

lemma fl64_circumference:
  "fl64 (884279719003555 / 2 ^ 47 * (8959626780035405 / 2251799813685248)) = Finite 25"
  using fl64_eval[of "884279719003555 / 2 ^ 47 * (8959626780035405 / 2251799813685248)" 4
      "1 / 2 ^ 48" "25 * 2 ^ 48"]
  by (simp add: powr_minus)

text \<open>Rounding to the nearest integer is monotone and odd, and so is rounding to the nearest
  double.\<close>

lemma roundEven_close: "\<bar>q - of_int (roundEven q)\<bar> \<le> 1 / 2"
proof -
  have "of_int \<lfloor>q\<rfloor> \<le> q" "q < of_int \<lfloor>q\<rfloor> + 1" by linarith+
  then show ?thesis by (auto simp: roundEven_def Let_def)
qed

lemma roundEven_of_int: "roundEven (of_int n) = n"
  by (rule roundEven_near) simp

lemma roundEven_mono:
  assumes "q1 \<le> q2"
  shows "roundEven q1 \<le> roundEven q2"
proof (rule ccontr)
  assume "\<not> roundEven q1 \<le> roundEven q2"
  then have "roundEven q2 + 1 \<le> roundEven q1" by simp
  then have "real_of_int (roundEven q2) + 1 \<le> of_int (roundEven q1)" by linarith
  moreover note roundEven_close[of q1] roundEven_close[of q2] assms
  ultimately have "q1 = q2" by linarith
  then show False using \<open>\<not> roundEven q1 \<le> roundEven q2\<close> by simp
qed

lemma roundEven_minus: "roundEven (- q) = - roundEven q"
proof -
  define f where "f = \<lfloor>q\<rfloor>"
  define r where "r = q - of_int f"
  have r: "0 \<le> r" "r < 1" unfolding r_def f_def by linarith+
  have q: "q = of_int f + r" by (simp add: r_def)
  show ?thesis
  proof (cases "r = 0")
    case True
    then have "q = of_int f" using q by simp
    then show ?thesis by (simp add: roundEven_of_int flip: of_int_minus)
  next
    case False
    have "of_int (- f - 1) \<le> - q \<and> - q < of_int (- f - 1) + 1" using q r False by simp
    then have nf: "\<lfloor>- q\<rfloor> = - f - 1" by (simp only: floor_eq_iff)
    have nr: "- q - of_int (- f - 1) = 1 - r" using q by simp
    have a: "roundEven q = (if r < 1 / 2 then f else if 1 / 2 < r then f + 1
                            else if even f then f else f + 1)"
      unfolding roundEven_def Let_def f_def[symmetric] r_def[symmetric] ..
    have b: "roundEven (- q) = (if 1 - r < 1 / 2 then - f - 1 else if 1 / 2 < 1 - r then - f
                            else if even (- f - 1) then - f - 1 else - f)"
      unfolding roundEven_def Let_def nf nr by simp
    show ?thesis unfolding a b by auto
  qed
qed

lemma binade_upper:
  assumes "x \<noteq> 0"
  shows "\<bar>x\<bar> < 2 powr of_int (binade x + 1)"
proof -
  have "log 2 \<bar>x\<bar> < of_int \<lfloor>log 2 \<bar>x\<bar>\<rfloor> + 1" by linarith
  also have "\<dots> \<le> of_int (binade x + 1)" by (simp add: binade_def)
  finally have "2 powr log 2 \<bar>x\<bar> < 2 powr of_int (binade x + 1)"
    by simp
  then show ?thesis using assms by simp
qed

lemma binade_lower:
  assumes "x \<noteq> 0" and "- 1022 < binade x"
  shows "2 powr of_int (binade x) \<le> \<bar>x\<bar>"
proof -
  have "binade x = \<lfloor>log 2 \<bar>x\<bar>\<rfloor>" using assms(2) by (simp add: binade_def max_def split: if_splits)
  then have "of_int (binade x) \<le> log 2 \<bar>x\<bar>" by simp
  then have "2 powr of_int (binade x) \<le> 2 powr log 2 \<bar>x\<bar>" by simp
  then show ?thesis using assms(1) by simp
qed

lemma binade_mono:
  assumes "0 < x" and "x \<le> y"
  shows "binade x \<le> binade y"
proof -
  have "log 2 \<bar>x\<bar> \<le> log 2 \<bar>y\<bar>" using assms by simp
  then have "\<lfloor>log 2 \<bar>x\<bar>\<rfloor> \<le> \<lfloor>log 2 \<bar>y\<bar>\<rfloor>" by (rule floor_mono)
  then show ?thesis by (simp add: binade_def)
qed

lemma ulp_pos: "0 < ulp x"
  by (simp add: ulp_def)

lemma ulp_minus: "ulp (- x) = ulp x"
  by (simp add: ulp_def binade_def)

lemma nearest_minus: "nearest (- x) = - nearest x"
  by (simp add: nearest_def ulp_minus roundEven_minus)

lemma nearest_zero: "nearest 0 = 0"
  using roundEven_of_int[of 0] by (simp add: nearest_def)

lemma nearest_nonneg:
  assumes "0 \<le> x"
  shows "0 \<le> nearest x"
proof -
  have "0 \<le> x / ulp x" using assms ulp_pos[of x] by simp
  then have "roundEven 0 \<le> roundEven (x / ulp x)" by (rule roundEven_mono)
  then have "0 \<le> roundEven (x / ulp x)" using roundEven_of_int[of 0] by simp
  then show ?thesis using ulp_pos[of x] by (simp add: nearest_def)
qed

lemma ulp_times:
  "2 ^ 52 * ulp x = 2 powr of_int (binade x)"
  "2 ^ 53 * ulp x = 2 powr of_int (binade x + 1)"
proof -
  have "(2::real) powr 52 * 2 powr (of_int (binade x) - 52) = 2 powr of_int (binade x)"
    by (simp only: powr_add[symmetric]) simp
  then show "2 ^ 52 * ulp x = 2 powr of_int (binade x)" by (simp add: ulp_def)
  have "(2::real) powr 53 * 2 powr (of_int (binade x) - 52) = 2 powr (of_int (binade x) + 1)"
    by (simp only: powr_add[symmetric]) (simp add: add.commute)
  then show "2 ^ 53 * ulp x = 2 powr of_int (binade x + 1)" by (simp add: ulp_def)
qed

lemma nearest_upper:
  assumes "0 < x"
  shows "nearest x \<le> 2 powr of_int (binade x + 1)"
proof -
  have "x < 2 powr of_int (binade x + 1)" using binade_upper[of x] assms by simp
  then have "x < 2 ^ 53 * ulp x" by (simp only: ulp_times(2))
  then have "x / ulp x < 2 ^ 53" using ulp_pos[of x] by (simp only: pos_divide_less_eq)
  then have "x / ulp x \<le> of_int (2 ^ 53)" by simp
  then have "roundEven (x / ulp x) \<le> roundEven (of_int (2 ^ 53))" by (rule roundEven_mono)
  then have "roundEven (x / ulp x) \<le> 2 ^ 53" by (simp only: roundEven_of_int)
  then have "real_of_int (roundEven (x / ulp x)) \<le> of_int (2 ^ 53)" by (simp only: of_int_le_iff)
  then have "real_of_int (roundEven (x / ulp x)) \<le> 2 ^ 53" by simp
  then have "real_of_int (roundEven (x / ulp x)) * ulp x \<le> 2 ^ 53 * ulp x"
    using ulp_pos[of x] by (intro mult_right_mono) simp_all
  then show ?thesis by (simp only: nearest_def ulp_times(2))
qed

lemma nearest_lower:
  assumes "0 < x" and "- 1022 < binade x"
  shows "2 powr of_int (binade x) \<le> nearest x"
proof -
  have "2 powr of_int (binade x) \<le> x" using binade_lower[of x] assms by simp
  then have "2 ^ 52 * ulp x \<le> x" by (simp only: ulp_times(1))
  then have "2 ^ 52 \<le> x / ulp x" using ulp_pos[of x] by (simp only: pos_le_divide_eq)
  then have "of_int (2 ^ 52) \<le> x / ulp x" by simp
  then have "roundEven (of_int (2 ^ 52)) \<le> roundEven (x / ulp x)" by (rule roundEven_mono)
  then have "2 ^ 52 \<le> roundEven (x / ulp x)" by (simp only: roundEven_of_int)
  then have "real_of_int (2 ^ 52) \<le> of_int (roundEven (x / ulp x))" by (simp only: of_int_le_iff)
  then have "2 ^ 52 \<le> real_of_int (roundEven (x / ulp x))" by simp
  then have "2 ^ 52 * ulp x \<le> real_of_int (roundEven (x / ulp x)) * ulp x"
    using ulp_pos[of x] by (intro mult_right_mono) simp_all
  then show ?thesis by (simp only: nearest_def ulp_times(1))
qed

lemma nearest_mono_pos:
  assumes "0 < x" and "x \<le> y"
  shows "nearest x \<le> nearest y"
proof (cases "binade x = binade y")
  case True
  then have u: "ulp x = ulp y" by (simp add: ulp_def)
  have "x / ulp y \<le> y / ulp y" using assms(2) ulp_pos[of y] by (simp add: divide_right_mono)
  then have "roundEven (x / ulp y) \<le> roundEven (y / ulp y)" by (rule roundEven_mono)
  then have "real_of_int (roundEven (x / ulp y)) \<le> of_int (roundEven (y / ulp y))" by simp
  then show ?thesis unfolding nearest_def u using ulp_pos[of y] by (intro mult_right_mono) simp_all
next
  case False
  then have lt: "binade x < binade y" using binade_mono[OF assms] by simp
  have "- 1022 \<le> binade x" by (simp add: binade_def)
  then have n: "- 1022 < binade y" using lt by simp
  have "nearest x \<le> 2 powr of_int (binade x + 1)" using assms(1) by (rule nearest_upper)
  also have "\<dots> \<le> 2 powr of_int (binade y)" using lt by simp
  also have "\<dots> \<le> nearest y" using assms n by (intro nearest_lower) simp_all
  finally show ?thesis .
qed

lemma nearest_mono:
  assumes "x \<le> y"
  shows "nearest x \<le> nearest y"
proof -
  consider "0 < x" | "x \<le> 0" "0 \<le> y" | "y < 0" by linarith
  then show ?thesis
  proof cases
    case 1
    then show ?thesis using assms by (rule nearest_mono_pos)
  next
    case 2
    have "0 \<le> nearest (- x)" using 2(1) by (intro nearest_nonneg) simp
    then have "nearest x \<le> 0" by (simp add: nearest_minus)
    also have "0 \<le> nearest y" using 2(2) by (rule nearest_nonneg)
    finally show ?thesis .
  next
    case 3
    have "nearest (- y) \<le> nearest (- x)" using 3 assms by (intro nearest_mono_pos) simp_all
    then show ?thesis by (simp add: nearest_minus)
  qed
qed

lemma fl64_mono:
  assumes "x \<le> y"
  shows "leD (fl64 x) (fl64 y)"
proof -
  have z: "fl64 t = (if 2 ^ 1024 \<le> nearest t then PosInfinity
                     else if nearest t \<le> - (2 ^ 1024) then NegInfinity
                     else Finite (nearest t))" for t
    by (simp add: fl64_def nearest_zero)
  have "nearest x \<le> nearest y" using assms by (rule nearest_mono)
  then show ?thesis unfolding z by auto
qed

text \<open>The integers up to \<open>2 ^ 53\<close> in absolute value are doubles.  Hence double arithmetic is a
  well-formed engine.\<close>

lemma nearest_integral:
  assumes "x / ulp x = of_int N"
  shows "nearest x = x"
proof -
  have "nearest x = of_int N * ulp x" by (simp add: nearest_def assms roundEven_of_int)
  also have "\<dots> = x / ulp x * ulp x" by (simp only: assms)
  also have "\<dots> = x" using ulp_pos[of x] by simp
  finally show ?thesis .
qed

lemma binade_integer:
  assumes "0 < k" and "k \<le> 2 ^ 53"
  shows "0 \<le> binade (of_int k)" and "binade (of_int k) \<le> 53"
proof -
  have one: "(1::real) \<le> of_int k" using assms(1) by simp
  then have "0 \<le> log 2 \<bar>real_of_int k\<bar>" by simp
  then have "0 \<le> \<lfloor>log 2 \<bar>real_of_int k\<bar>\<rfloor>" by simp
  then show "0 \<le> binade (of_int k)" by (simp add: binade_def)
  have "real_of_int k \<le> of_int (2 ^ 53)" using assms(2) by (simp only: of_int_le_iff)
  then have "real_of_int k \<le> 2 powr 53" by simp
  then have "log 2 \<bar>real_of_int k\<bar> \<le> 53" using one by (simp add: log_le_iff)
  then have "\<lfloor>log 2 \<bar>real_of_int k\<bar>\<rfloor> \<le> 53" by (simp add: floor_le_iff) 
  then show "binade (of_int k) \<le> 53" by (simp add: binade_def)
qed

lemma nearest_integer_pos:
  assumes "0 < k" and "k \<le> 2 ^ 53"
  shows "nearest (of_int k) = of_int k"
proof -
  let ?x = "real_of_int k"
  let ?e = "binade ?x"
  note b = binade_integer[OF assms]
  have xpos: "0 < ?x" using assms(1) by simp
  show ?thesis
  proof (cases "?e \<le> 52")
    case True
    have "1 / ulp ?x = 2 powr of_int (52 - ?e)"
      by (simp add: ulp_def powr_diff)
    also have "\<dots> = 2 ^ nat (52 - ?e)" using True by (subst powr_real_of_int) simp_all
    finally have inv: "1 / ulp ?x = 2 ^ nat (52 - ?e)" .
    have "?x / ulp ?x = ?x * (1 / ulp ?x)" by simp
    also have "\<dots> = of_int (k * 2 ^ nat (52 - ?e))" unfolding inv by simp
    finally have "?x / ulp ?x = of_int (k * 2 ^ nat (52 - ?e))" .
    then show ?thesis by (rule nearest_integral)
  next
    case False
    then have e: "?e = 53" using b(2) by simp
    have "2 powr of_int ?e \<le> \<bar>?x\<bar>" using xpos b(1) by (intro binade_lower) simp_all
    then have "2 ^ 53 \<le> ?x" unfolding e using xpos by simp
    moreover have "?x \<le> of_int (2 ^ 53)" using assms(2) by (simp only: of_int_le_iff)
    ultimately have x: "?x = 2 ^ 53" by simp
    have u: "ulp ?x = 2" by (simp add: ulp_def e)
    have "?x / ulp ?x = ?x / 2" by (simp only: u)
    also have "\<dots> = of_int (2 ^ 52)" by (simp add: x)
    finally have "?x / ulp ?x = of_int (2 ^ 52)" .
    then show ?thesis by (rule nearest_integral)
  qed
qed

lemma nearest_integer:
  assumes "\<bar>k\<bar> \<le> 2 ^ 53"
  shows "nearest (of_int k) = of_int k"
proof -
  consider "0 < k" | "k = 0" | "k < 0" by linarith
  then show ?thesis
  proof cases
    case 1
    then show ?thesis using assms by (intro nearest_integer_pos) simp_all
  next
    case 2
    then show ?thesis by (simp add: nearest_zero)
  next
    case 3
    then have "nearest (of_int (- k)) = of_int (- k)" using assms by (intro nearest_integer_pos) simp_all
    then show ?thesis by (simp add: nearest_minus)
  qed
qed

lemma fl64_integer:
  assumes "\<bar>k\<bar> \<le> 2 ^ 53"
  shows "fl64 (of_int k) = Finite (of_int k)"
proof -
  have "\<bar>real_of_int k\<bar> \<le> of_int (2 ^ 53)" using assms by (simp only: of_int_abs[symmetric] of_int_le_iff)
  then have "\<bar>real_of_int k\<bar> \<le> 2 ^ 53" by simp
  moreover have "(2::real) ^ 53 < 2 ^ 1024" by simp
  ultimately have "\<bar>real_of_int k\<bar> < 2 ^ 1024" by linarith
  then have "\<not> 2 ^ 1024 \<le> real_of_int k" "\<not> real_of_int k \<le> - (2 ^ 1024)" by linarith+
  then show ?thesis unfolding fl64_def nearest_integer[OF assms] by simp
qed

lemma wellFormed_doubleEngine: "wellFormed doubleEngine"
proof -
  have "\<exists>t::real. 0 < t \<and> fl64 (1 / 10) = Finite t"
    unfolding fl64_tenth by (intro exI[of _ "7205759403792794 / 2 ^ 56"]) simp
  then show ?thesis
    by (simp add: wellFormed_def doubleEngine_def fl64_integer fl64_mono)
qed

section \<open>Runs in double arithmetic\<close>

text \<open>At radius 3.978873577297384 and speed 1 the product \<open>2 * Math.PI * orbitRadius\<close> is
  rounded to 25, and the run has 25 points per lap and 26 samples; over the reals the
  circumference is above 25 and the formula gives 26 points per lap.\<close>

lemma mulD_Finite: "mulD E (Finite x) (Finite y) = fl E (x * y)"
  by (simp add: mulD_def)

lemma quotD_Finite: "y \<noteq> 0 \<Longrightarrow> quotD E (Finite x) (Finite y) = fl E (x / y)"
  by (simp add: quotD_def)

lemma pointsPerLapD_double:
  "pointsPerLapD doubleEngine (Finite (8959626780035405 / 2251799813685248)) (Finite 1) = Finite 25"
proof -
  have fl: "fl doubleEngine = fl64" by (simp add: doubleEngine_def)
  have c: "mulD doubleEngine (mulD doubleEngine (Finite 2) (fl64 pi))
             (Finite (8959626780035405 / 2251799813685248)) = Finite 25"
    by (simp only: fl64_pi mulD_Finite fl fl64_two_pi fl64_circumference)
  have m: "maxD (fl64 (1 / 10)) (Finite 1) = Finite 1"
    by (simp add: fl64_tenth maxD_def)
  have "quotD doubleEngine (Finite 25) (Finite 1) = fl64 (25 / 1)"
    unfolding fl[symmetric] by (rule quotD_Finite) simp
  then have q: "quotD doubleEngine (Finite 25) (Finite 1) = Finite 25"
    by (simp add: fl64_25)
  show ?thesis
    unfolding pointsPerLapD_def fl c m q by (simp add: ceilD_def maxD_def)
qed

lemma real_points_per_lap:
  "max 24 \<lceil>2 * pi * (8959626780035405 / 2251799813685248) / max (1 / 10) 1 / 1\<rceil> = (26::int)"
proof -
  have "25 < 2 * pi * (8959626780035405 / 2251799813685248)"
    using pi_lower by (simp add: field_simps)
  moreover have "2 * pi * (8959626780035405 / 2251799813685248) \<le> 26"
    using pi_upper by (simp add: field_simps)
  ultimately have "\<lceil>2 * pi * (8959626780035405 / 2251799813685248)\<rceil> = (26::int)"
    by (simp add: ceiling_eq_iff)
  then show ?thesis by simp
qed

lemma orbitBranchD_plain:
  assumes "maxD (fl E (1 / 10)) speed \<noteq> Finite 0"
  shows "orbitBranchD E current speed path =
           orbitLoopD E current
             (quotD E (Finite 360) (pointsPerLapD E (orbitRadiusD current) speed))
             (mulD E (pointsPerLapD E (orbitRadiusD current) speed) (lapsD current)) 0 path"
  using assms
  by (simp add: orbitBranchD_def Let_def divide_def pointsPerLap_nonzero pointsPerLapD_def lapsD_def
      maxD_commute[of "Finite 24"])

lemma rounded_orbit_run:
  "generateSimulationPathD doubleEngine [roundedOrbitD] (Finite 1) =
     Inr (map (orbitSampleD doubleEngine roundedOrbitD (quotD doubleEngine (Finite 360) (Finite 25)))
            [0 ..< 26])"
proof -
  let ?E = doubleEngine
  let ?a = "quotD ?E (Finite 360) (Finite 25)"
  have fl: "fl ?E = fl64" by (simp add: doubleEngine_def)
  have r: "orbitRadiusD roundedOrbitD = Finite (8959626780035405 / 2251799813685248)"
    and t: "typeD roundedOrbitD = ORBIT"
    and l: "lapsD roundedOrbitD = Finite 1"
    by (simp_all add: roundedOrbitD_def lapsD_def falsy_def)
  have d: "maxD (fl ?E (1 / 10)) (Finite 1) \<noteq> Finite 0"
    by (simp add: fl fl64_tenth maxD_def)
  have "mulD ?E (Finite 25) (Finite 1) = fl64 (25 * 1)" unfolding fl[symmetric] by (rule mulD_Finite)
  then have total: "mulD ?E (Finite 25) (Finite 1) = Finite 25" by (simp add: fl64_25)
  have steps: "stepsD (Finite 25) = Some 26" by (simp add: stepsD_def stepCount_def)
  have cap: "capacity ?E = 2 ^ 32 - 1" by (simp add: doubleEngine_def)
  have "orbitBranchD ?E roundedOrbitD (Finite 1) [] = orbitLoopD ?E roundedOrbitD ?a (Finite 25) 0 []"
    unfolding orbitBranchD_plain[OF d] r pointsPerLapD_double l total ..
  also have "\<dots> = Inr ([] @ map (orbitSampleD ?E roundedOrbitD ?a) [0 ..< 26])"
    by (subst orbitLoopD_eq) (simp_all add: steps cap)
  finally have b: "orbitBranchD ?E roundedOrbitD (Finite 1) [] =
      Inr (map (orbitSampleD ?E roundedOrbitD ?a) [0 ..< 26])" by simp
  have "generateSimulationPathD ?E [roundedOrbitD] (Finite 1) =
        loopBodyD ?E [roundedOrbitD] (Finite 1) 0 []"
    by (simp add: generateSimulationPathD_eq)
  also have "\<dots> = orbitBranchD ?E roundedOrbitD (Finite 1) []"
    using t by (simp add: loopBodyD_in)
  finally show ?thesis unfolding b .
qed

text \<open>On a well-formed engine the computed number of points per lap of an orbit of radius \<open>r\<close> at
  speed 1 is at least \<open>4 * r\<close>, and an orbit that asks for \<open>2 ^ 32\<close> samples or more ends the run.\<close>

lemma fl_lower:
  assumes "wellFormed E" and "\<bar>k\<bar> \<le> 2 ^ 53" and "of_int k \<le> x"
  shows "leD (Finite (of_int k)) (fl E x)"
proof -
  have "fl E (of_int k) = Finite (of_int k)" using assms(1,2) by (simp add: wellFormed_def)
  moreover have "leD (fl E (of_int k)) (fl E x)" using assms(1,3) unfolding wellFormed_def by blast
  ultimately show ?thesis by simp
qed

lemma above_cases:
  assumes "leD (Finite c) x"
  obtains v where "x = Finite v" and "c \<le> v" | "x = PosInfinity"
  using assms by (cases x) simp_all

lemma mulD_lower:
  assumes "wellFormed E" and "leD (Finite (of_int a)) x" and "leD (Finite (of_int b)) y"
    and "0 < a" and "0 < b" and "a * b \<le> 2 ^ 53"
  shows "leD (Finite (of_int (a * b))) (mulD E x y)"
proof -
  have k: "\<bar>a * b\<bar> \<le> 2 ^ 53" using assms(4-6) by simp
  from assms(2) show ?thesis
  proof (cases rule: above_cases)
    case (1 u)
    from assms(3) show ?thesis
    proof (cases rule: above_cases)
      case (1 v)
      have "real_of_int a * of_int b \<le> u * v"
        using \<open>of_int a \<le> u\<close> \<open>of_int b \<le> v\<close> assms(4,5) by (intro mult_mono) simp_all
      then have "of_int (a * b) \<le> u * v" by simp
      then have "leD (Finite (of_int (a * b))) (fl E (u * v))" using assms(1) k by (intro fl_lower)
      then show ?thesis unfolding \<open>x = Finite u\<close> \<open>y = Finite v\<close> by (simp add: mulD_def)
    next
      case 2
      have "(0::real) < of_int a" using assms(4) by simp
      then have "0 < u" using \<open>of_int a \<le> u\<close> by linarith
      then show ?thesis unfolding \<open>x = Finite u\<close> 2 by (simp add: mulD_def positive_def)
    qed
  next
    case 2
    from assms(3) show ?thesis
    proof (cases rule: above_cases)
      case (1 v)
      have "(0::real) < of_int b" using assms(5) by simp
      then have "0 < v" using \<open>of_int b \<le> v\<close> by linarith
      then show ?thesis unfolding \<open>x = PosInfinity\<close> \<open>y = Finite v\<close> by (simp add: mulD_def positive_def)
    next
      case 2
      then show ?thesis unfolding \<open>x = PosInfinity\<close> by (simp add: mulD_def positive_def)
    qed
  qed
qed

lemma quotD_one_lower:
  assumes "wellFormed E" and "leD (Finite (of_int a)) x" and "\<bar>a\<bar> \<le> 2 ^ 53"
  shows "leD (Finite (of_int a)) (quotD E x (Finite 1))"
  using assms(2)
proof (cases rule: above_cases)
  case (1 v)
  have "leD (Finite (of_int a)) (fl E v)" using assms(1,3) 1(2) by (rule fl_lower)
  then show ?thesis unfolding 1(1) by (simp add: quotD_def)
next
  case 2
  then show ?thesis by (simp add: quotD_def positive_def)
qed

lemma divisor_at_one:
  assumes "wellFormed E"
  shows "maxD (fl E (1 / 10)) (Finite 1) = Finite 1"
proof -
  obtain t where t: "fl E (1 / 10) = Finite t" using assms by (auto simp: wellFormed_def)
  have "leD (Finite (of_int 1)) (fl E (of_int 1))" using assms by (rule fl_lower) simp_all
  moreover have "leD (fl E (of_int 1)) (Finite (of_int 1))"
  proof -
    have "\<forall>k::int. \<bar>k\<bar> \<le> 2 ^ 53 \<longrightarrow> fl E (of_int k) = Finite (of_int k)"
      using assms by (simp add: wellFormed_def)
    then have "\<bar>1::int\<bar> \<le> 2 ^ 53 \<longrightarrow> fl E (of_int 1) = Finite (of_int 1)" by (rule spec)
    then show ?thesis by simp
  qed
  ultimately have one: "fl E 1 = Finite 1" by (cases "fl E 1") simp_all
  have "\<forall>x y. x \<le> y \<longrightarrow> leD (fl E x) (fl E y)" using assms by (simp add: wellFormed_def)
  then have "(1 / 10 :: real) \<le> 1 \<longrightarrow> leD (fl E (1 / 10)) (fl E 1)" by blast
  then have "leD (fl E (1 / 10)) (fl E 1)" by simp
  then show ?thesis unfolding t one by (simp add: maxD_def)
qed

lemma samples_lower:
  assumes wf: "wellFormed E" and "typeD w = ORBIT" and "orbitRadiusD w = Finite (of_int r)"
    and "orbitLapsD w = Finite (of_int L)" and "1 \<le> L" and "0 < r" and "4 * r * L \<le> 2 ^ 53"
    and "samplesD E w (Finite 1) = Some n"
  shows "nat (4 * r * L) < n"
proof -
  have r4: "4 * r \<le> 2 ^ 53"
  proof -
    have "4 * r * 1 \<le> 4 * r * L" using assms(5,6) by (intro mult_left_mono) simp_all
    then have "4 * r \<le> 4 * r * L" by (simp only: mult_1_right)
    then show ?thesis using assms(7) by (rule order_trans)
  qed
  have b2: "leD (Finite (of_int 2)) (fl E pi)" using wf by (rule fl_lower) (use pi_ge_two in simp_all)
  have b4: "leD (Finite (of_int (2 * 2))) (mulD E (Finite 2) (fl E pi))"
    by (rule mulD_lower[OF wf _ b2]) simp_all
  have "leD (Finite (of_int (2 * 2 * r))) (mulD E (mulD E (Finite 2) (fl E pi)) (Finite (of_int r)))"
    by (rule mulD_lower[OF wf b4]) (use assms(6) r4 in simp_all)
  then have c: "leD (Finite (of_int (4 * r))) (mulD E (mulD E (Finite 2) (fl E pi)) (Finite (of_int r)))"
    by simp
  have a4: "\<bar>4 * r\<bar> \<le> 2 ^ 53" using r4 assms(6) by simp
  have "leD (Finite (of_int (4 * r)))
          (quotD E (quotD E (mulD E (mulD E (Finite 2) (fl E pi)) (Finite (of_int r))) (Finite 1)) (Finite 1))"
    by (rule quotD_one_lower[OF wf quotD_one_lower[OF wf c a4] a4])
  then have q: "leD (Finite (of_int (4 * r)))
          (quotD E (quotD E (mulD E (mulD E (Finite 2) (fl E pi)) (Finite (of_int r)))
             (maxD (fl E (1 / 10)) (Finite 1))) (Finite 1))"
    by (simp only: divisor_at_one[OF wf])
  have p: "leD (Finite (of_int (4 * r))) (pointsPerLapD E (Finite (of_int r)) (Finite 1))"
    unfolding pointsPerLapD_def using q
  proof (cases rule: above_cases)
    case (1 v)
    have "v \<le> of_int \<lceil>v\<rceil>" by (rule le_of_int_ceiling)
    then have "real_of_int (4 * r) \<le> of_int \<lceil>v\<rceil>" using 1(2) by (rule order_trans[rotated])
    then have "real_of_int (4 * r) \<le> max 24 (of_int \<lceil>v\<rceil>)" by (simp only: le_max_iff_disj) simp
    then show "leD (Finite (of_int (4 * r))) (maxD (Finite 24)
        (ceilD (quotD E (quotD E (mulD E (mulD E (Finite 2) (fl E pi)) (Finite (of_int r)))
             (maxD (fl E (1 / 10)) (Finite 1))) (Finite 1))))"
      unfolding 1(1) by (simp only: ceilD_def num.case maxD_Finite leD.simps)
  next
    case 2
    then show "leD (Finite (of_int (4 * r))) (maxD (Finite 24)
        (ceilD (quotD E (quotD E (mulD E (mulD E (Finite 2) (fl E pi)) (Finite (of_int r)))
             (maxD (fl E (1 / 10)) (Finite 1))) (Finite 1))))"
      by (simp add: ceilD_def maxD_def)
  qed
  have l: "lapsD w = Finite (of_int L)" using assms(4,5) by (simp add: lapsD_def falsy_def)
  have t: "leD (Finite (of_int (4 * r * L)))
                  (mulD E (pointsPerLapD E (Finite (of_int r)) (Finite 1)) (Finite (of_int L)))"
    by (rule mulD_lower[OF wf p]) (use assms(5,6,7) in simp_all)
  have s: "samplesD E w (Finite 1) =
           stepsD (mulD E (pointsPerLapD E (Finite (of_int r)) (Finite 1)) (Finite (of_int L)))"
    using assms(2,3) l by (simp add: samplesD_def)
  from t show ?thesis
  proof (cases rule: above_cases)
    case (1 v)
    have "0 \<le> 4 * r * L" using assms(5,6) by simp
    then have "(0::real) \<le> of_int (4 * r * L)" by (simp only: of_int_0_le_iff)
    then have v0: "0 \<le> v" using 1(2) by linarith
    have "4 * r * L \<le> \<lfloor>v\<rfloor>" using 1(2) by (simp add: le_floor_iff)
    then have "nat (4 * r * L) \<le> nat \<lfloor>v\<rfloor>" by (rule nat_mono)
    moreover have "n = nat \<lfloor>v\<rfloor> + 1"
      using assms(8) v0 unfolding s 1(1) by (simp add: stepsD_def stepCount_def)
    ultimately show ?thesis by simp
  next
    case 2
    then show ?thesis using assms(8) unfolding s by (simp add: stepsD_def)
  qed
qed

lemma too_many_samples:
  assumes wf: "wellFormed E" and "typeD w = ORBIT" and "orbitRadiusD w = Finite (of_int r)"
    and "orbitLapsD w = Finite (of_int L)" and "1 \<le> L" and "0 < r" and "4 * r * L \<le> 2 ^ 53"
    and "2 ^ 32 \<le> 4 * r * L"
  shows "generateSimulationPathD E [w] (Finite 1) = Inl RangeError"
proof -
  have cap: "capacity E \<le> 2 ^ 32 - 1" using wf by (simp add: wellFormed_def)
  have big: "2 ^ 32 \<le> nat (4 * r * L)"
  proof -
    have "nat (2 ^ 32) \<le> nat (4 * r * L)" using assms(8) by (rule nat_mono)
    then show ?thesis by simp
  qed
  have "\<not> (\<exists>p. pathBeforeD E [w] (Finite 1) (Suc 0) = Inr p \<and>
              demandD E [w] (Finite 1) (Suc 0) = Some (length p) \<and> length p \<le> capacity E)"
  proof
    assume "\<exists>p. pathBeforeD E [w] (Finite 1) (Suc 0) = Inr p \<and>
              demandD E [w] (Finite 1) (Suc 0) = Some (length p) \<and> length p \<le> capacity E"
    then obtain p :: "SimulatedPointD list"
      where p: "demandD E [w] (Finite 1) (Suc 0) = Some (length p)" "length p \<le> capacity E"
      by blast
    then have "samplesD E w (Finite 1) = Some (length p)" by (simp split: option.splits)
    then have "nat (4 * r * L) < length p" using assms(1-7) by (intro samples_lower)
    then show False using p(2) cap big by linarith
  qed
  then have "pathBeforeD E [w] (Finite 1) (Suc 0) = Inl RangeError"
    using pathBeforeD_outcome[OF wf, of "Suc 0" "[w]" "Finite 1"] by auto
  then show ?thesis by (simp only: generateSimulationPathD_eq list.size) simp
qed

lemma two_wide_laps_double:
  "generateSimulationPathD doubleEngine [twoWideLapsD] (Finite 1) = Inl RangeError"
  using too_many_samples[OF wellFormed_doubleEngine, of twoWideLapsD 1000000000 2]
  by (simp add: twoWideLapsD_def)

section \<open>The number of samples of an orbit\<close>

text \<open>
  C1, as amended: on a well-formed engine, let the outer loop reach index \<open>i\<close> with the path
  \<open>p\<close>, at an orbit waypoint with a whole number \<open>L >= 1\<close> of laps for which \<open>pointsPerLap\<close>, as
  the code computes it in the arithmetic of the engine, is the integer \<open>m\<close>.  If \<open>p\<close> and
  \<open>m * L + 1\<close> more samples fit in an array, the iteration appends exactly \<open>m * L + 1\<close> samples
  to \<open>p\<close>; if they do not, the run ends with a \<open>RangeError\<close> and there is no path.
\<close>

theorem orbit_sample_count:
  assumes "wellFormed E"
    and "i < length waypoints"
    and "typeD (waypoints ! i) = ORBIT"
    and "orbitLapsD (waypoints ! i) = Finite (of_int L)"
    and "1 \<le> L"
    and "pointsPerLapD E (orbitRadiusD (waypoints ! i)) speed = Finite (of_int m)"
    and "pathBeforeD E waypoints speed i = Inr p"
  shows "(length p + nat (m * L + 1) \<le> capacity E \<longrightarrow>
           (\<exists>seg. pathBeforeD E waypoints speed (Suc i) = Inr (p @ seg) \<and>
                  int (length seg) = m * L + 1)) \<and>
         (capacity E < length p + nat (m * L + 1) \<longrightarrow>
           pathBeforeD E waypoints speed (Suc i) = Inl RangeError)"
proof -
  let ?w = "waypoints ! i"
  have m24: "24 \<le> m"
  proof -
    have "pointsPerLapD E (orbitRadiusD ?w) speed =
          maxD (ceilD (quotD E (quotD E (mulD E (mulD E (Finite 2) (fl E pi)) (orbitRadiusD ?w))
                  (maxD (fl E (1 / 10)) speed)) (Finite 1))) (Finite 24)"
      by (simp add: pointsPerLapD_def maxD_commute[of "Finite 24"])
    then show ?thesis
      using pointsPerLap_cases[of "quotD E (quotD E (mulD E (mulD E (Finite 2) (fl E pi)) (orbitRadiusD ?w))
                  (maxD (fl E (1 / 10)) speed)) (Finite 1)"] assms(6)
      by auto
  qed
  have nonneg: "0 \<le> m * L" using m24 assms(5) by simp
  have laps: "lapsD ?w = Finite (of_int L)" using assms(4,5) by (simp add: lapsD_def falsy_def)
  have s: "samplesD E ?w speed = stepsD (fl E (of_int (m * L)))"
    using assms(3) by (simp add: samplesD_def assms(6) laps mulD_def)
  have cap: "capacity E \<le> 2 ^ 32 - 1" using assms(1) by (simp add: wellFormed_def)
  have plen: "length p \<le> capacity E"
    using pathBeforeD_outcome[OF assms(1), of i waypoints speed] assms(2,7) by auto
  have nxt: "pathBeforeD E waypoints speed (Suc i) = loopBodyD E waypoints speed i p"
    using assms(7) by simp
  note body = loopBodyD_outcome[OF assms(1,2) plen, of speed]
  note steps = steps_of_integer[OF assms(1) nonneg]
  have count: "nat (m * L + 1) = nat (m * L) + 1" using nonneg by (simp add: nat_add_distrib)
  show ?thesis
  proof (intro conjI impI)
    assume fits: "length p + nat (m * L + 1) \<le> capacity E"
    then have "nat (m * L) < 2 ^ 32" using cap count by linarith
    then have "m * L < 2 ^ 53"
    proof -
      assume "nat (m * L) < 2 ^ 32"
      then have "m * L < 2 ^ 32" using nonneg by (simp add: nat_less_iff)
      also have "(2 ^ 32 :: int) < 2 ^ 53" by simp
      finally show ?thesis .
    qed
    then have st: "stepsD (fl E (of_int (m * L))) = Some (nat (m * L) + 1)" using steps by auto
    from body show "\<exists>seg. pathBeforeD E waypoints speed (Suc i) = Inr (p @ seg) \<and>
                  int (length seg) = m * L + 1"
    proof
      assume "\<exists>seg. loopBodyD E waypoints speed i p = Inr (p @ seg) \<and>
            samplesD E ?w speed = Some (length seg) \<and> length p + length seg \<le> capacity E"
      then obtain seg where seg: "loopBodyD E waypoints speed i p = Inr (p @ seg)"
        "samplesD E ?w speed = Some (length seg)" by blast
      then have "length seg = nat (m * L) + 1" using s st by simp
      then have "int (length seg) = m * L + 1" using nonneg by simp
      then show ?thesis using seg(1) nxt by auto
    next
      assume "loopBodyD E waypoints speed i p = Inl RangeError \<and>
          (\<forall>n. samplesD E ?w speed = Some n \<longrightarrow> capacity E < length p + n)"
      then have "capacity E < length p + (nat (m * L) + 1)" using s st by simp
      then show ?thesis using fits count by simp
    qed
  next
    assume over: "capacity E < length p + nat (m * L + 1)"
    from body show "pathBeforeD E waypoints speed (Suc i) = Inl RangeError"
    proof
      assume "\<exists>seg. loopBodyD E waypoints speed i p = Inr (p @ seg) \<and>
            samplesD E ?w speed = Some (length seg) \<and> length p + length seg \<le> capacity E"
      then obtain seg :: "SimulatedPointD list" where
        "samplesD E ?w speed = Some (length seg)" "length p + length seg \<le> capacity E"
        by blast
      then have seg: "stepsD (fl E (of_int (m * L))) = Some (length seg)"
        "length p + length seg \<le> capacity E" using s by simp_all
      from steps have False
      proof
        assume "stepsD (fl E (of_int (m * L))) = Some (nat (m * L) + 1)"
        then show False using seg over count by simp
      next
        assume "2 ^ 53 < m * L \<and> (\<forall>n. stepsD (fl E (of_int (m * L))) = Some n \<longrightarrow> 2 ^ 53 < n)"
        then have "2 ^ 53 < length seg" using seg(1) by blast
        moreover have "length seg \<le> 2 ^ 32 - 1" using seg(2) cap by linarith
        ultimately show False by simp
      qed
      then show ?thesis ..
    next
      assume "loopBodyD E waypoints speed i p = Inl RangeError \<and>
          (\<forall>n. samplesD E ?w speed = Some n \<longrightarrow> capacity E < length p + n)"
      then show ?thesis using nxt by simp
    qed
  qed
qed

text \<open>The orbit of radius 30 at speed 10: there are 24 points per lap, the array has room, and
  the generator returns 25 samples.\<close>

theorem orbit_sample_count_witness:
  "\<exists>out. generateSimulationPathD exactEngine [orbitAtOriginD] (Finite 10) = Inr out \<and>
         int (length out) = 25"
proof -
  have "2 * pi * 30 / max (1 / 10) 10 / 1 = 6 * pi" by simp
  moreover have "6 * pi \<le> 24" using pi_less_4 by simp
  ultimately have "\<lceil>2 * pi * 30 / max (1 / 10) 10 / 1\<rceil> \<le> (24::int)"
    by (simp only: ceiling_le_iff)
  then have m: "max 24 \<lceil>2 * pi * 30 / max (1 / 10) 10 / 1\<rceil> = (24::int)" by (rule max_absorb1)
  have ppl: "pointsPerLapD exactEngine (orbitRadiusD ([orbitAtOriginD] ! 0)) (Finite 10) =
             Finite (of_int 24)"
    by (simp only: orbitAtOriginD_def nth_Cons_0 WaypointD.simps pointsPerLapD_exact m)
  have laps: "orbitLapsD ([orbitAtOriginD] ! 0) = Finite (of_int 1)"
    by (simp add: orbitAtOriginD_def)
  have ty: "typeD ([orbitAtOriginD] ! 0) = ORBIT" by (simp add: orbitAtOriginD_def)
  have start: "pathBeforeD exactEngine [orbitAtOriginD] (Finite 10) 0 = Inr []" by simp
  have room: "length ([] :: SimulatedPointD list) + nat (24 * 1 + 1) \<le> capacity exactEngine"
    by (simp add: exactEngine_def)
  have "\<exists>seg. pathBeforeD exactEngine [orbitAtOriginD] (Finite 10) (Suc 0) = Inr ([] @ seg) \<and>
              int (length seg) = 24 * 1 + 1"
    using orbit_sample_count[OF wellFormed_exactEngine _ ty laps _ ppl start] room by simp
  then show ?thesis by (simp add: generateSimulationPathD_eq)
qed

text \<open>
  C1 as stated takes \<open>pointsPerLap\<close> from the formula and promises \<open>pointsPerLap * L + 1\<close>
  samples for every orbit.  In double arithmetic one lap of radius 3.978873577297384 at speed
  1 yields the 26 samples of the steps 0 to 25, where the formula, with 26 points per lap,
  gives 27; and two laps of radius \<open>10 ^ 9\<close> at speed 1 ask for more samples than an array
  holds, so that the run ends without a path.
\<close>

theorem orbit_sample_count_counterexample:
  "generateSimulationPathD doubleEngine [roundedOrbitD] (Finite 1) =
     Inr (map (orbitSampleD doubleEngine roundedOrbitD (quotD doubleEngine (Finite 360) (Finite 25)))
            [0 ..< 26]) \<and>
   max 24 \<lceil>2 * pi * (8959626780035405 / 2251799813685248) / max (1 / 10) 1 / 1\<rceil> * 1 + 1 = (27::int) \<and>
   generateSimulationPathD doubleEngine [twoWideLapsD] (Finite 1) = Inl RangeError"
  by (simp only: rounded_orbit_run real_points_per_lap two_wide_laps_double) simp

section \<open>The outcomes of the generator\<close>

text \<open>
  C6, as amended: on a well-formed engine, for every list of waypoints and every speed, NaN
  and the infinities included, the generator either returns a path, with as many samples as
  the waypoints demand and no more than an array holds, or the waypoints demand more than
  an array holds and the run ends with a \<open>RangeError\<close>.  No run ends with a \<open>TypeError\<close>, no
  run divides by zero, and for every speed \<open>s <= 0\<close> the run is the run at speed \<open>0.1\<close>.
\<close>

theorem generateSimulationPathD_outcome:
  assumes "wellFormed E"
  shows "((\<exists>out. generateSimulationPathD E waypoints speed = Inr out \<and>
             demandD E waypoints speed (length waypoints) = Some (length out) \<and>
             length out \<le> capacity E) \<or>
          (generateSimulationPathD E waypoints speed = Inl RangeError \<and>
           (\<forall>n. demandD E waypoints speed (length waypoints) = Some n \<longrightarrow> capacity E < n))) \<and>
         generateSimulationPathD E waypoints speed \<noteq> Inl TypeError \<and>
         generateSimulationPathD E waypoints speed \<noteq> Inl ZeroDivisor \<and>
         (\<forall>s. s \<le> 0 \<longrightarrow>
            generateSimulationPathD E waypoints (Finite s) =
            generateSimulationPathD E waypoints (fl E (1 / 10)))"
proof -
  have a: "(\<exists>out. generateSimulationPathD E waypoints speed = Inr out \<and>
             demandD E waypoints speed (length waypoints) = Some (length out) \<and>
             length out \<le> capacity E) \<or>
          (generateSimulationPathD E waypoints speed = Inl RangeError \<and>
           (\<forall>n. demandD E waypoints speed (length waypoints) = Some n \<longrightarrow> capacity E < n))"
    unfolding generateSimulationPathD_eq
    by (rule pathBeforeD_outcome[OF assms]) simp
  then have b: "generateSimulationPathD E waypoints speed \<noteq> Inl TypeError"
    and c: "generateSimulationPathD E waypoints speed \<noteq> Inl ZeroDivisor"
    by auto
  have d: "generateSimulationPathD E waypoints (Finite s) =
           generateSimulationPathD E waypoints (fl E (1 / 10))" if "s \<le> 0" for s
    unfolding generateSimulationPathD_eq using assms that by (rule pathBeforeD_clamp)
  show ?thesis using a b c d by blast
qed

text \<open>An orbit with a negative radius, coordinates out of range and no laps, followed by a
  normal waypoint, at speed \<open>-5\<close>: the generator returns 26 samples, the ones of speed \<open>0.1\<close>.\<close>

theorem generateSimulationPathD_outcome_witness:
  "(\<exists>out. generateSimulationPathD exactEngine [degenerateOrbitD, normalEastD] (Finite (- 5)) = Inr out \<and>
          length out = 26) \<and>
   generateSimulationPathD exactEngine [degenerateOrbitD, normalEastD] (Finite (- 5)) =
   generateSimulationPathD exactEngine [degenerateOrbitD, normalEastD] (Finite (1 / 10))"
proof -
  note o = generateSimulationPathD_outcome[OF wellFormed_exactEngine,
      of "[degenerateOrbitD, normalEastD]" "Finite (- 5)"]
  have cap: "\<not> capacity exactEngine < 26" by (simp add: exactEngine_def)
  have len: "length [degenerateOrbitD, normalEastD] = 2" by simp
  have d: "demandD exactEngine [degenerateOrbitD, normalEastD] (Finite (- 5))
             (length [degenerateOrbitD, normalEastD]) = Some 26"
    unfolding len by (rule demand_degenerate)
  have "\<exists>out. generateSimulationPathD exactEngine [degenerateOrbitD, normalEastD] (Finite (- 5)) = Inr out \<and>
          length out = 26"
    using o d cap by auto
  moreover have "generateSimulationPathD exactEngine [degenerateOrbitD, normalEastD] (Finite (- 5)) =
     generateSimulationPathD exactEngine [degenerateOrbitD, normalEastD] (Finite (1 / 10))"
  proof -
    have "fl exactEngine (1 / 10) = Finite (1 / 10)" by (simp add: exactEngine_def)
    moreover have "(- 5 :: real) \<le> 0" by simp
    ultimately show ?thesis using o by metis
  qed
  ultimately show ?thesis by blast
qed

text \<open>
  C6 as stated promises a result for every well-typed input.  In double arithmetic one lap
  of radius \<open>10 ^ 10\<close> at speed 1 asks for more than \<open>4 * 10 ^ 10\<close> samples, and the run ends
  with a \<open>RangeError\<close>.
\<close>

theorem generateSimulationPathD_outcome_counterexample:
  "generateSimulationPathD doubleEngine [hugeOrbitD] (Finite 1) = Inl RangeError"
  using too_many_samples[OF wellFormed_doubleEngine, of hugeOrbitD 10000000000 1]
  by (simp add: hugeOrbitD_def)

end
